theory Spec2Isabelle
  imports Main "HOL-Library.AList" "HOL-Library.Sublist"
begin

section \<open>The command line interface of speechT (cli.py)\<close>

text \<open>
  The module builds an \<^verbatim>\<open>argparse\<close> parser with four sub-commands, derives two fields
  from the parsed namespace (\<^verbatim>\<open>CLI.parsed\<close>), looks the command up in a table of executor
  classes (\<^verbatim>\<open>CLI.command_executor\<close>), creates four directories
  (\<^verbatim>\<open>CLI._ensure_directories\<close>) and runs the executor (\<^verbatim>\<open>CLI.run\<close>).

  What the module only calls is kept apart from what it defines:
  \<^item> Python's \<^verbatim>\<open>int\<close> and \<^verbatim>\<open>float\<close> (the \<^verbatim>\<open>type=\<close> of an option), the regular
    expression argparse matches negative numbers with, and \<^verbatim>\<open>os.path.exists\<close>,
    \<^verbatim>\<open>os.makedirs\<close> are parameters of the model;
  \<^item> \<^verbatim>\<open>argparse\<close> is modelled as CPython 3 implements it, for the parsers this module
    builds (options only below a sub-command, no mutually exclusive group, no required
    option, abbreviations allowed), on byte strings;
  \<^item> the executor classes (Training, Evaluation, Recording, LanguageModelParameterSearch)
    live in other modules: constructing one and calling its \<^verbatim>\<open>run()\<close> are recorded as
    events, and what they do beyond that is not modelled.
\<close>

subsection \<open>Values, namespaces and errors\<close>

text \<open>A float is kept as the text Python converted (a literal of the source or a token of
  the command line): no property below depends on its numeric value.\<close>

datatype pyval = PyNone | PyStr string | PyInt int | PyFloat string | PyBool bool

datatype conv = AsStr | AsInt | AsFloat

datatype argument_error =
    InvalidChoice string
  | InvalidValue string conv string
  | ExpectedOneArgument string
  | IgnoredExplicitArgument string string
  | AmbiguousOption string "string list"
  | UnrecognizedArguments "string list"

text \<open>\<open>HelpExit\<close> is \<^verbatim>\<open>SystemExit(0)\<close> after the help text, \<open>ArgparseError\<close> is
  \<^verbatim>\<open>parser.error\<close>: the usage message and \<^verbatim>\<open>SystemExit(2)\<close>.\<close>

datatype error =
    HelpExit
  | ArgparseError argument_error
  | AttributeError string
  | KeyError pyval
  | TypeError
  | OSError string


text \<open>An \<^verbatim>\<open>argparse.Namespace\<close>: attribute names with their values, in the order they were
  first set. Reading an attribute that was never set raises.\<close>

type_synonym namespace = "(string \<times> pyval) list"

definition hasattr :: "namespace \<Rightarrow> string \<Rightarrow> bool" where
  "hasattr ns k = (map_of ns k \<noteq> None)"

definition getattr :: "namespace \<Rightarrow> string \<Rightarrow> error + pyval" where
  "getattr ns k = (case map_of ns k of None \<Rightarrow> Inl (AttributeError k) | Some v \<Rightarrow> Inr v)"

definition setattr :: "namespace \<Rightarrow> string \<Rightarrow> pyval \<Rightarrow> namespace" where
  "setattr ns k v = AList.update k v ns"

text \<open>What Python itself decides: \<^verbatim>\<open>int(s)\<close>, whether \<^verbatim>\<open>float(s)\<close> returns, and
  whether \<^verbatim>\<open>s\<close> matches the parser's \<^verbatim>\<open>_negative_number_matcher\<close>, the regular
  expression \<^verbatim>\<open>^-\d+$|^-\d*\.\d+$\<close> (where \<^verbatim>\<open>\d\<close> is any Unicode decimal digit).\<close>

record builtins =
  builtin_int :: "string \<Rightarrow> int option"
  builtin_float :: "string \<Rightarrow> bool"
  negative_number_matcher :: "string \<Rightarrow> bool"

subsection \<open>The parsers the module builds\<close>

datatype action = Store conv | StoreConst pyval | StoreTrue | StoreFalse | Help | Parsers

text \<open>An argparse action: its option strings, \<^verbatim>\<open>dest\<close> and default
  (\<open>None\<close> for \<^verbatim>\<open>SUPPRESS\<close>, as the help action has it).\<close>

datatype argument =
  Argument (option_strings: "string list") (dest: "string option") (act: action)
    (dflt: "pyval option")

record parser =
  actions :: "argument list"
  defaults :: "(string \<times> pyval) list"

definition help_action :: argument where
  "help_action = Argument [''-h'', ''--help''] None Help None"

text \<open>\<^verbatim>\<open>ArgumentParser(add_help=..., parents=[...])\<close>: the help action first, then the
  actions and the defaults of each parent.\<close>

definition ArgumentParser :: "bool \<Rightarrow> parser list \<Rightarrow> parser" where
  "ArgumentParser add_help parents =
     \<lparr>actions = (if add_help then [help_action] else []) @ concat (map actions parents),
      defaults = concat (map defaults parents)\<rparr>"

definition add_argument :: "string \<Rightarrow> string \<Rightarrow> action \<Rightarrow> pyval \<Rightarrow> parser \<Rightarrow> parser" where
  "add_argument opt d a v p = p\<lparr>actions := actions p @ [Argument [opt] (Some d) a (Some v)]\<rparr>"

text \<open>\<^verbatim>\<open>set_defaults(dest=value)\<close> records the default and replaces the default of every
  action already added for that \<^verbatim>\<open>dest\<close>.\<close>

definition set_defaults :: "string \<Rightarrow> pyval \<Rightarrow> parser \<Rightarrow> parser" where
  "set_defaults d v p =
     p\<lparr>actions := map (\<lambda>a. if dest a = Some d then Argument (option_strings a) (dest a) (act a) (Some v)
                             else a) (actions p),
       defaults := AList.update d v (defaults p)\<rparr>"

definition create_base_parser :: parser where
  "create_base_parser =
    (set_defaults ''feature_type'' (PyStr ''power'')
    (add_argument ''--log-dir'' ''log_dir'' (Store AsStr) (PyStr ''log'')
    (add_argument ''--train-dir'' ''train_dir'' (Store AsStr) (PyStr ''train'')
    (add_argument ''--data-dir'' ''data_dir'' (Store AsStr) (PyStr ''data'')
    (add_argument ''--run-name'' ''run_name'' (Store AsStr) (PyStr ''noname'')
    (add_argument ''--batch-size'' ''batch_size'' (Store AsInt) (PyInt 64)
    (add_argument ''--power'' ''feature_type'' (StoreConst (PyStr ''power'')) PyNone
    (add_argument ''--mfcc'' ''feature_type'' (StoreConst (PyStr ''mfcc'')) PyNone
    (ArgumentParser False [])))))))))"

definition training_parser :: parser where
  "training_parser =
    (add_argument ''--steps-per-checkpoint'' ''steps_per_checkpoint'' (Store AsInt) (PyInt 1000)
    (add_argument ''--limit-training-set'' ''limit_training_set'' (Store AsInt) (PyInt 0)
    (add_argument ''--max-gradient-norm'' ''max_gradient_norm'' (Store AsFloat) (PyFloat ''5.0'')
    (add_argument ''--momentum'' ''momentum'' (Store AsFloat) (PyFloat ''0.9'')
    (add_argument ''--learning-rate-decay-factor'' ''learning_rate_decay_factor'' (Store AsFloat) (PyInt 0)
    (add_argument ''--reset-learning-rate'' ''reset_learning_rate'' StoreTrue (PyBool False)
    (add_argument ''--learning-rate'' ''learning_rate'' (Store AsFloat) (PyFloat ''1e-3'')
    (ArgumentParser True [create_base_parser]))))))))"

definition add_language_model_argument :: "parser \<Rightarrow> parser" where
  "add_language_model_argument = add_argument ''--language-model'' ''language_model'' (Store AsStr) PyNone"

definition evaluation_parser :: parser where
  "evaluation_parser =
    (set_defaults ''dataset'' (PyStr ''test'')
    (add_language_model_argument
    (add_argument ''--epoch-count'' ''epoch_count'' (Store AsInt) (PyInt 1)
    (add_argument ''--no-save'' ''should_save'' StoreFalse (PyBool True)
    (add_argument ''--test'' ''dataset'' (StoreConst (PyStr ''test'')) PyNone
    (add_argument ''--dev'' ''dataset'' (StoreConst (PyStr ''dev'')) PyNone
    (ArgumentParser True [create_base_parser])))))))"

definition recording_parser :: parser where
  "recording_parser =
    (add_language_model_argument
    (add_argument ''--input-size'' ''input_size'' (Store AsInt) (PyInt 128)
    (ArgumentParser True [create_base_parser])))"

definition parameter_search_parser :: parser where
  "parameter_search_parser =
    (add_language_model_argument
    (add_argument ''--ui'' ''use_ui'' StoreTrue (PyBool False)
    (add_argument ''--noise-std'' ''noise_std'' (Store AsFloat) (PyFloat ''0.5'')
    (add_argument ''--population-size'' ''population_size'' (Store AsInt) (PyInt 10)
    (ArgumentParser True [create_base_parser])))))"

text \<open>\<^verbatim>\<open>add_subparsers(dest='command')\<close> with its four \<^verbatim>\<open>add_parser\<close> calls: the
  sub-command names are the choices of the positional \<^verbatim>\<open>command\<close>, whose default is
  \<^verbatim>\<open>None\<close> and which is not required.\<close>

definition subparsers :: "(string \<times> parser) list" where
  "subparsers =
     [(''train'', training_parser), (''evaluate'', evaluation_parser),
      (''record'', recording_parser), (''search'', parameter_search_parser)]"

definition add_subparsers :: "string \<Rightarrow> parser \<Rightarrow> parser" where
  "add_subparsers d p = p\<lparr>actions := actions p @ [Argument [] (Some d) Parsers (Some PyNone)]\<rparr>"

definition main_parser :: parser where
  "main_parser = add_subparsers ''command'' (ArgumentParser True [])"

subsection \<open>Parsing, as argparse does it\<close>

text \<open>The namespace before any token is read: the default of every action whose
  \<^verbatim>\<open>dest\<close> is not yet set, then the parser's own defaults.\<close>

definition init_namespace :: "parser \<Rightarrow> namespace" where
  "init_namespace p =
     foldl (\<lambda>ns (d, v). if hasattr ns d then ns else setattr ns d v)
       (foldl (\<lambda>ns a. case (dest a, dflt a) of
                  (Some d, Some v) \<Rightarrow> if hasattr ns d then ns else setattr ns d v
                | _ \<Rightarrow> ns) [] (actions p))
       (defaults p)"

definition option_string_actions :: "parser \<Rightarrow> (string \<times> argument) list" where
  "option_string_actions p = concat (map (\<lambda>a. map (\<lambda>s. (s, a)) (option_strings a)) (actions p))"

text \<open>\<^verbatim>\<open>str.partition('=')\<close>: the text before the first \<^verbatim>\<open>=\<close>, whether there is one,
  and the text after it.\<close>

definition partition_eq :: "string \<Rightarrow> string \<times> bool \<times> string" where
  "partition_eq s =
     (let t = dropWhile (\<lambda>c. c \<noteq> CHR ''='') s
      in (takeWhile (\<lambda>c. c \<noteq> CHR ''='') s, t \<noteq> [], drop 1 t))"

text \<open>\<^verbatim>\<open>_get_option_tuples\<close>: the options a token abbreviates. A token with two dashes
  matches every option string that starts with its part before \<^verbatim>\<open>=\<close>; a token with one
  dash matches the option string equal to its first two characters (the rest is then an
  explicit argument) and every option string it is a prefix of.\<close>

definition get_option_tuples ::
  "parser \<Rightarrow> string \<Rightarrow> (argument \<times> string \<times> bool \<times> string option) list" where
  "get_option_tuples p arg =
     (if prefix ''--'' arg then
        (case partition_eq arg of
           (pre, sep, ex) \<Rightarrow>
             concat (map (\<lambda>(s, a). if prefix pre s then [(a, s, sep, if sep then Some ex else None)]
                                    else [])
                       (option_string_actions p)))
      else
        concat (map (\<lambda>(s, a). if s = take 2 arg then [(a, s, False, Some (drop 2 arg))]
                               else if prefix arg s then [(a, s, False, None)]
                               else [])
                  (option_string_actions p)))"

text \<open>\<^verbatim>\<open>_parse_optional\<close>: a token is a positional, an ambiguous abbreviation, or an
  option: its action (\<open>None\<close> when the parser has no such option), the option string,
  whether an \<^verbatim>\<open>=\<close> separated an explicit argument, and that argument. None of the
  module's parsers has an option that looks like a negative number, so a token that
  does is a positional.\<close>

datatype optional =
    Positional
  | Ambiguous "string list"
  | Option "argument option" string bool "string option"

definition parse_optional :: "builtins \<Rightarrow> parser \<Rightarrow> string \<Rightarrow> optional" where
  "parse_optional b p arg =
     (if arg = [] then Positional
      else if hd arg \<noteq> CHR ''-'' then Positional
      else case map_of (option_string_actions p) arg of
        Some a \<Rightarrow> Option (Some a) arg False None
      | None \<Rightarrow>
          if length arg = 1 then Positional
          else case partition_eq arg of
            (s, sep, ex) \<Rightarrow>
              (case (if sep then map_of (option_string_actions p) s else None) of
                 Some a \<Rightarrow> Option (Some a) s True (Some ex)
               | None \<Rightarrow>
                   (case get_option_tuples p arg of
                      [] \<Rightarrow> if negative_number_matcher b arg then Positional
                            else if CHR '' '' \<in> set arg then Positional
                            else Option None arg False None
                    | [(a, s', sep', ex')] \<Rightarrow> Option (Some a) s' sep' ex'
                    | ts \<Rightarrow> Ambiguous (map (\<lambda>(a, s', sep', ex'). s') ts))))"

text \<open>The pattern of the argument strings: \<open>Arg\<close> an argument, \<open>Dash\<close> the token
  \<^verbatim>\<open>--\<close> (every token after it is an argument), \<open>Opt\<close> an option. An ambiguous
  abbreviation is an error before any action is taken.\<close>

datatype item = Arg string | Dash | Opt string "argument option" string bool "string option"

fun classify :: "builtins \<Rightarrow> parser \<Rightarrow> string list \<Rightarrow> error + item list" where
  "classify b p [] = Inr []"
| "classify b p (t # ts) =
     (if t = ''--'' then Inr (Dash # map Arg ts)
      else case parse_optional b p t of
        Ambiguous ms \<Rightarrow> Inl (ArgparseError (AmbiguousOption t ms))
      | Positional \<Rightarrow>
          (case classify b p ts of Inl e \<Rightarrow> Inl e | Inr is \<Rightarrow> Inr (Arg t # is))
      | Option a s sep ex \<Rightarrow>
          (case classify b p ts of Inl e \<Rightarrow> Inl e | Inr is \<Rightarrow> Inr (Opt t a s sep ex # is)))"

text \<open>\<^verbatim>\<open>_get_value\<close>: the \<^verbatim>\<open>type=\<close> of the option applied to its argument string.\<close>

fun get_value :: "builtins \<Rightarrow> conv \<Rightarrow> string \<Rightarrow> pyval option" where
  "get_value b AsStr s = Some (PyStr s)"
| "get_value b AsInt s = map_option PyInt (builtin_int b s)"
| "get_value b AsFloat s = (if builtin_float b s then Some (PyFloat s) else None)"

definition store :: "argument \<Rightarrow> pyval \<Rightarrow> namespace \<Rightarrow> namespace" where
  "store a v ns = (case dest a of None \<Rightarrow> ns | Some d \<Rightarrow> setattr ns d v)"

text \<open>What each action does with the argument strings matched for it: the option string
  it was given as and its one argument, if it takes one.\<close>

fun take_action :: "builtins \<Rightarrow> argument \<Rightarrow> string \<Rightarrow> string option \<Rightarrow> namespace \<Rightarrow> error + namespace" where
  "take_action b a s arg ns =
     (case act a of
        Help \<Rightarrow> Inl HelpExit
      | StoreConst v \<Rightarrow> Inr (store a v ns)
      | StoreTrue \<Rightarrow> Inr (store a (PyBool True) ns)
      | StoreFalse \<Rightarrow> Inr (store a (PyBool False) ns)
      | Parsers \<Rightarrow> Inr ns
      | Store c \<Rightarrow>
          (case arg of
             None \<Rightarrow> Inl (ArgparseError (ExpectedOneArgument s))
           | Some x \<Rightarrow>
               (case get_value b c x of
                  None \<Rightarrow> Inl (ArgparseError (InvalidValue s c x))
                | Some v \<Rightarrow> Inr (store a v ns))))"

text \<open>An option that takes no argument but was given one in its own token. After a
  two-dash option, or after \<^verbatim>\<open>=\<close>, that is an error. After a single-dash option the rest
  of the token is read as further single-dash options, and an error there comes before
  any action of the token is taken; the only single-dash option of these parsers is
  \<^verbatim>\<open>-h\<close>. This is CPython 3.11.10; earlier versions differ on such tokens in which
  of the two ways the process exits.\<close>

definition flag_with_explicit_arg ::
  "builtins \<Rightarrow> argument \<Rightarrow> string \<Rightarrow> bool \<Rightarrow> string \<Rightarrow> namespace \<Rightarrow> error + namespace" where
  "flag_with_explicit_arg b a s sep e ns =
     (if prefix ''--'' s \<or> sep \<or> e = [] then Inl (ArgparseError (IgnoredExplicitArgument s e))
      else case dropWhile (\<lambda>c. c = CHR ''h'') e of
        [] \<Rightarrow> take_action b a s None ns
      | c # r \<Rightarrow>
          if c = CHR ''-'' then Inl (ArgparseError (IgnoredExplicitArgument s (c # r)))
          else if c = CHR ''='' \<and> c # r \<noteq> e then Inl (ArgparseError (IgnoredExplicitArgument s r))
          else take_action b a s None ns)"

text \<open>\<^verbatim>\<open>consume_optional\<close> for one option: an option that stores a value takes its
  explicit argument or else the next token, which must be an argument; any other option
  takes none.\<close>

fun consume :: "builtins \<Rightarrow> item list \<Rightarrow> namespace \<Rightarrow> string list \<Rightarrow> error + namespace \<times> string list" where
  "consume b [] ns ex = Inr (ns, ex)"
| "consume b (Arg t # is) ns ex = consume b is ns (ex @ [t])"
| "consume b (Dash # is) ns ex = consume b is ns (ex @ [''--''])"
| "consume b (Opt t None s sep e # is) ns ex = consume b is ns (ex @ [t])"
| "consume b (Opt t (Some a) s sep (Some e) # is) ns ex =
     (case (case act a of Store c \<Rightarrow> take_action b a s (Some e) ns
                        | _ \<Rightarrow> flag_with_explicit_arg b a s sep e ns) of
        Inl err \<Rightarrow> Inl err
      | Inr ns' \<Rightarrow> consume b is ns' ex)"
| "consume b (Opt t (Some a) s sep None # is) ns ex =
     (case act a of
        Store c \<Rightarrow>
          (case is of
             Arg v # is' \<Rightarrow>
               (case take_action b a s (Some v) ns of
                  Inl err \<Rightarrow> Inl err
                | Inr ns' \<Rightarrow> consume b is' ns' ex)
           | _ \<Rightarrow> Inl (ArgparseError (ExpectedOneArgument s)))
      | _ \<Rightarrow>
          (case take_action b a s None ns of
             Inl err \<Rightarrow> Inl err
           | Inr ns' \<Rightarrow> consume b is ns' ex))"

text \<open>\<^verbatim>\<open>parse_known_args\<close> of a parser without positionals: the namespace and the
  tokens no action consumed.\<close>

definition parse_known_args :: "builtins \<Rightarrow> parser \<Rightarrow> string list \<Rightarrow> error + namespace \<times> string list" where
  "parse_known_args b p args =
     (case classify b p args of
        Inl e \<Rightarrow> Inl e
      | Inr is \<Rightarrow> consume b is (init_namespace p) [])"

text \<open>The sub-command action: the first argument string must be one of the four names;
  it is stored as \<^verbatim>\<open>command\<close>, the sub-command's parser reads the other strings, and
  every attribute of its namespace is copied over.\<close>

definition subparsers_action ::
  "builtins \<Rightarrow> namespace \<Rightarrow> string \<Rightarrow> string list \<Rightarrow> error + namespace \<times> string list" where
  "subparsers_action b ns name rest =
     (case map_of subparsers name of
        None \<Rightarrow> Inl (ArgparseError (InvalidChoice name))
      | Some p \<Rightarrow>
          (case parse_known_args b p rest of
             Inl e \<Rightarrow> Inl e
           | Inr (sub, extras) \<Rightarrow>
               Inr (foldl (\<lambda>n (k, v). setattr n k v) (setattr ns ''command'' (PyStr name)) sub,
                    extras)))"

text \<open>The main parser: options before the sub-command are its own (\<^verbatim>\<open>-h\<close>) or
  unrecognized; the first argument and everything after it go to the sub-command action;
  with no argument at all the sub-command action is not called.\<close>

fun main_consume :: "builtins \<Rightarrow> string list \<Rightarrow> namespace \<Rightarrow> string list \<Rightarrow> error + namespace \<times> string list" where
  "main_consume b [] ns ex = Inr (ns, ex)"
| "main_consume b (t # ts) ns ex =
     (if t = ''--'' \<and> ts = [] then Inr (ns, ex @ [t])
      else if t = ''--'' then
        (case subparsers_action b ns t ts of
           Inl e \<Rightarrow> Inl e
         | Inr (ns', ex') \<Rightarrow> Inr (ns', ex @ ex'))
      else case parse_optional b main_parser t of
        Positional \<Rightarrow>
          (case subparsers_action b ns t ts of
             Inl e \<Rightarrow> Inl e
           | Inr (ns', ex') \<Rightarrow> Inr (ns', ex @ ex'))
      | Ambiguous ms \<Rightarrow> Inl (ArgparseError (AmbiguousOption t ms))
      | Option None s sep e \<Rightarrow> main_consume b ts ns (ex @ [t])
      | Option (Some a) s sep e \<Rightarrow>
          (case (case e of None \<Rightarrow> take_action b a s None ns
                         | Some x \<Rightarrow> flag_with_explicit_arg b a s sep x ns) of
             Inl err \<Rightarrow> Inl err
           | Inr ns' \<Rightarrow> main_consume b ts ns' ex))"

text \<open>\<^verbatim>\<open>parse_args\<close>: unrecognized arguments are an error.\<close>

definition parse_args :: "builtins \<Rightarrow> string list \<Rightarrow> error + namespace" where
  "parse_args b argv =
     (case main_consume b argv (init_namespace main_parser) [] of
        Inl e \<Rightarrow> Inl e
      | Inr (ns, ex) \<Rightarrow> if ex = [] then Inr ns else Inl (ArgparseError (UnrecognizedArguments ex)))"

text \<open>Whether a token, read as an option of the parser, is an option string (or an
  abbreviation of one, with or without \<^verbatim>\<open>=value\<close>) of an action that stores into the
  given \<^verbatim>\<open>dest\<close>.\<close>

definition sets_dest :: "builtins \<Rightarrow> parser \<Rightarrow> string \<Rightarrow> string \<Rightarrow> bool" where
  "sets_dest b p d t =
     (case parse_optional b p t of
        Option (Some a) s sep e \<Rightarrow> dest a = Some d
      | _ \<Rightarrow> False)"

text \<open>The attribute is set and holds a string.\<close>

definition str_attr :: "namespace \<Rightarrow> string \<Rightarrow> bool" where
  "str_attr ns k = (case map_of ns k of Some (PyStr x) \<Rightarrow> True | _ \<Rightarrow> False)"

subsection \<open>The process: caches, file system, events\<close>

text \<open>\<^verbatim>\<open>os.path.exists\<close> and \<^verbatim>\<open>os.makedirs\<close> over some type of file system states.
  \<open>os_makedirs\<close> gives whether the call returned (rather than raised) and the file
  system it leaves.\<close>

record 'fs os =
  path_exists :: "'fs \<Rightarrow> string \<Rightarrow> bool"
  os_makedirs :: "'fs \<Rightarrow> string \<Rightarrow> bool \<times> 'fs"

datatype executor_class = Training | Evaluation | Recording | LanguageModelParameterSearch

text \<open>Objects carry an identity: the number they were created under.\<close>

record config =
  oid :: nat
  attrs :: namespace

record executor =
  eid :: nat
  cls :: executor_class
  conf :: config

datatype event =
    ParseArgs
  | Makedirs string
  | Construct executor_class nat
  | Run nat

text \<open>The state of one process: \<^verbatim>\<open>sys.argv[1:]\<close>, the file system, the next object
  identity, what has happened so far, and the two entries \<^verbatim>\<open>@lazy\<close> puts into the
  \<^verbatim>\<open>CLI\<close> instance's dictionary.\<close>

record 'fs process =
  argv :: "string list"
  fs :: 'fs
  next_id :: nat
  trace :: "event list"
  parsed_cache :: "config option"
  executor_cache :: "executor option"

definition start :: "string list \<Rightarrow> 'fs \<Rightarrow> 'fs process" where
  "start args f =
     \<lparr>argv = args, fs = f, next_id = 0, trace = [], parsed_cache = None, executor_cache = None\<rparr>"

subsection \<open>CLI.parsed\<close>

text \<open>Lines 122 to 129: \<^verbatim>\<open>run_type\<close> from \<^verbatim>\<open>command\<close>.\<close>

definition set_run_type :: "namespace \<Rightarrow> error + namespace" where
  "set_run_type ns =
     (case getattr ns ''command'' of
        Inl e \<Rightarrow> Inl e
      | Inr c \<Rightarrow>
          if c = PyStr ''train'' then Inr (setattr ns ''run_type'' (PyStr ''train''))
          else if c = PyStr ''evaluate'' then
            (case getattr ns ''dataset'' of
               Inl e \<Rightarrow> Inl e
             | Inr d \<Rightarrow> Inr (setattr ns ''run_type'' d))
          else if c = PyStr ''record'' then Inr (setattr ns ''run_type'' (PyStr ''record''))
          else Inr (setattr ns ''run_type'' (PyStr ''other'')))"

text \<open>\<^verbatim>\<open>+\<close> where the module uses it, with a string on the right: two strings are
  concatenated, anything else on the left is a TypeError.\<close>

definition str_add :: "pyval \<Rightarrow> pyval \<Rightarrow> error + pyval" where
  "str_add x y = (case (x, y) of (PyStr a, PyStr b) \<Rightarrow> Inr (PyStr (a @ b)) | _ \<Rightarrow> Inl TypeError)"

text \<open>Line 131: \<^verbatim>\<open>parsed.run_train_dir = parsed.train_dir + '/' + parsed.run_name\<close>.\<close>

definition set_run_train_dir :: "namespace \<Rightarrow> error + namespace" where
  "set_run_train_dir ns =
     (case getattr ns ''train_dir'' of
        Inl e \<Rightarrow> Inl e
      | Inr t \<Rightarrow>
          (case str_add t (PyStr ''/'') of
             Inl e \<Rightarrow> Inl e
           | Inr ts \<Rightarrow>
               (case getattr ns ''run_name'' of
                  Inl e \<Rightarrow> Inl e
                | Inr n \<Rightarrow>
                    (case str_add ts n of
                       Inl e \<Rightarrow> Inl e
                     | Inr d \<Rightarrow> Inr (setattr ns ''run_train_dir'' d)))))"

text \<open>The body of \<^verbatim>\<open>parsed\<close>: \<^verbatim>\<open>parse_args()\<close> reads \<^verbatim>\<open>sys.argv\<close> and makes a new
  namespace object, which the two assignments then extend.\<close>

definition parsed_body :: "builtins \<Rightarrow> 'fs process \<Rightarrow> (error + config) \<times> 'fs process" where
  "parsed_body b s =
     (case parse_args b (argv s) of
        Inl e \<Rightarrow> (Inl e, s\<lparr>trace := trace s @ [ParseArgs]\<rparr>)
      | Inr ns \<Rightarrow>
          (let s' = s\<lparr>next_id := Suc (next_id s), trace := trace s @ [ParseArgs]\<rparr>
           in case set_run_type ns of
                Inl e \<Rightarrow> (Inl e, s')
              | Inr ns1 \<Rightarrow>
                  (case set_run_train_dir ns1 of
                     Inl e \<Rightarrow> (Inl e, s')
                   | Inr ns2 \<Rightarrow> (Inr \<lparr>oid = next_id s, attrs = ns2\<rparr>, s'))))"

text \<open>\<^verbatim>\<open>@lazy\<close>: the first read that returns stores the value in the instance; later
  reads find it there. A body that raises stores nothing.\<close>

definition parsed :: "builtins \<Rightarrow> 'fs process \<Rightarrow> (error + config) \<times> 'fs process" where
  "parsed b s =
     (case parsed_cache s of
        Some c \<Rightarrow> (Inr c, s)
      | None \<Rightarrow>
          (case parsed_body b s of
             (Inl e, s') \<Rightarrow> (Inl e, s')
           | (Inr c, s') \<Rightarrow> (Inr c, s'\<lparr>parsed_cache := Some c\<rparr>)))"

subsection \<open>CLI.command_executor\<close>

definition command_registry :: "(pyval \<times> executor_class) list" where
  "command_registry =
     [(PyStr ''train'', Training), (PyStr ''evaluate'', Evaluation),
      (PyStr ''record'', Recording), (PyStr ''search'', LanguageModelParameterSearch)]"

text \<open>Line 137 to 142: the dictionary is indexed with \<^verbatim>\<open>self.parsed.command\<close> and the
  class found is called with \<^verbatim>\<open>self.parsed\<close>, read a second time.\<close>

definition command_executor_body :: "builtins \<Rightarrow> 'fs process \<Rightarrow> (error + executor) \<times> 'fs process" where
  "command_executor_body b s =
     (case parsed b s of
        (Inl e, s1) \<Rightarrow> (Inl e, s1)
      | (Inr c, s1) \<Rightarrow>
          (case getattr (attrs c) ''command'' of
             Inl e \<Rightarrow> (Inl e, s1)
           | Inr k \<Rightarrow>
               (case map_of command_registry k of
                  None \<Rightarrow> (Inl (KeyError k), s1)
                | Some class \<Rightarrow>
                    (case parsed b s1 of
                       (Inl e, s2) \<Rightarrow> (Inl e, s2)
                     | (Inr c', s2) \<Rightarrow>
                         (Inr \<lparr>eid = next_id s2, cls = class, conf = c'\<rparr>,
                          s2\<lparr>next_id := Suc (next_id s2),
                             trace := trace s2 @ [Construct class (oid c')]\<rparr>)))))"

definition command_executor :: "builtins \<Rightarrow> 'fs process \<Rightarrow> (error + executor) \<times> 'fs process" where
  "command_executor b s =
     (case executor_cache s of
        Some x \<Rightarrow> (Inr x, s)
      | None \<Rightarrow>
          (case command_executor_body b s of
             (Inl e, s') \<Rightarrow> (Inl e, s')
           | (Inr x, s') \<Rightarrow> (Inr x, s'\<lparr>executor_cache := Some x\<rparr>)))"

subsection \<open>CLI._ensure_directories and CLI.run\<close>

definition directory_names :: "string list" where
  "directory_names = [''train_dir'', ''data_dir'', ''log_dir'', ''run_train_dir'']"

text \<open>The list \<^verbatim>\<open>directories\<close>: one read of \<^verbatim>\<open>self.parsed\<close> and of the attribute for
  each element, in order.\<close>

fun parsed_attrs :: "builtins \<Rightarrow> string list \<Rightarrow> 'fs process \<Rightarrow> (error + pyval list) \<times> 'fs process" where
  "parsed_attrs b [] s = (Inr [], s)"
| "parsed_attrs b (k # ks) s =
     (case parsed b s of
        (Inl e, s1) \<Rightarrow> (Inl e, s1)
      | (Inr c, s1) \<Rightarrow>
          (case getattr (attrs c) k of
             Inl e \<Rightarrow> (Inl e, s1)
           | Inr v \<Rightarrow>
               (case parsed_attrs b ks s1 of
                  (Inl e, s2) \<Rightarrow> (Inl e, s2)
                | (Inr vs, s2) \<Rightarrow> (Inr (v # vs), s2))))"

text \<open>The loop of line 153. The four attributes hold strings (their options have
  \<^verbatim>\<open>type=str\<close> and string defaults); a value of another type is a TypeError here.\<close>

fun ensure_each :: "'fs os \<Rightarrow> pyval list \<Rightarrow> 'fs process \<Rightarrow> (error + unit) \<times> 'fs process" where
  "ensure_each os [] s = (Inr (), s)"
| "ensure_each os (PyStr d # ds) s =
     (if path_exists os (fs s) d then ensure_each os ds s
      else case os_makedirs os (fs s) d of
        (ok, f') \<Rightarrow>
          (let s' = s\<lparr>fs := f', trace := trace s @ [Makedirs d]\<rparr>
           in if ok then ensure_each os ds s' else (Inl (OSError d), s')))"
| "ensure_each os (v # ds) s = (Inl TypeError, s)"

definition ensure_directories :: "builtins \<Rightarrow> 'fs os \<Rightarrow> 'fs process \<Rightarrow> (error + unit) \<times> 'fs process" where
  "ensure_directories b os s =
     (case parsed_attrs b directory_names s of
        (Inl e, s1) \<Rightarrow> (Inl e, s1)
      | (Inr ds, s1) \<Rightarrow> ensure_each os ds s1)"

definition run :: "builtins \<Rightarrow> 'fs os \<Rightarrow> 'fs process \<Rightarrow> (error + unit) \<times> 'fs process" where
  "run b os s =
     (case ensure_directories b os s of
        (Inl e, s1) \<Rightarrow> (Inl e, s1)
      | (Inr u, s1) \<Rightarrow>
          (case command_executor b s1 of
             (Inl e, s2) \<Rightarrow> (Inl e, s2)
           | (Inr x, s2) \<Rightarrow> (Inr (), s2\<lparr>trace := trace s2 @ [Run (eid x)]\<rparr>)))"

subsection \<open>An instance of the parameters, for worked examples\<close>

text \<open>Decimal integers with an optional minus sign, decimal fractions
  \<^verbatim>\<open>digits.digits\<close>, the negative number expression on ASCII digits, and a file
  system that is the list of the directories that exist, where \<^verbatim>\<open>makedirs\<close> adds the
  path and each of its parents.\<close>

definition is_digit :: "char \<Rightarrow> bool" where
  "is_digit c = (c \<in> set ''0123456789'')"

text \<open>\<^verbatim>\<open>^-\d+$|^-\d*\.\d+$\<close> with ASCII digits only (\<^verbatim>\<open>$\<close> also matches before a
  final newline).\<close>

definition negative_number_like :: "string \<Rightarrow> bool" where
  "negative_number_like s =
     (case s of
        [] \<Rightarrow> False
      | c # r \<Rightarrow>
          c = CHR ''-'' \<and>
          (let r' = (if r \<noteq> [] \<and> last r = CHR 0x0A then butlast r else r);
               f = dropWhile is_digit r'
           in (takeWhile is_digit r' \<noteq> [] \<and> f = []) \<or>
              (case f of [] \<Rightarrow> False
               | d # g \<Rightarrow> d = CHR ''.'' \<and> g \<noteq> [] \<and> list_all is_digit g)))"

definition decimal :: "string \<Rightarrow> int option" where
  "decimal s =
     (let d = (\<lambda>r. if r \<noteq> [] \<and> list_all is_digit r
                    then Some (foldl (\<lambda>n c. 10 * n + (int (of_char c) - 48)) 0 r) else None)
      in case s of CHR ''-'' # r \<Rightarrow> map_option uminus (d r) | _ \<Rightarrow> d s)"

definition decimal_fraction :: "string \<Rightarrow> bool" where
  "decimal_fraction s =
     (takeWhile is_digit s \<noteq> [] \<and>
      (case dropWhile is_digit s of
         [] \<Rightarrow> True
       | c # r \<Rightarrow> c = CHR ''.'' \<and> r \<noteq> [] \<and> list_all is_digit r))"

definition sample_builtins :: builtins where
  "sample_builtins =
     \<lparr>builtin_int = decimal, builtin_float = decimal_fraction,
      negative_number_matcher = negative_number_like\<rparr>"

definition parents :: "string \<Rightarrow> string list" where
  "parents p = map (\<lambda>i. take i p) (filter (\<lambda>i. 0 < i \<and> p ! i = CHR ''/'') [0..<length p])"

definition sample_os :: "string list os" where
  "sample_os =
     \<lparr>path_exists = (\<lambda>f p. p \<in> set f),
      os_makedirs = (\<lambda>f p. if p = [] \<or> p \<in> set f then (False, f)
                            else (True, f @ filter (\<lambda>q. q \<notin> set f) (parents p) @ [p]))\<rparr>"

text \<open>A file system with regular files as well as directories: \<^verbatim>\<open>os.path.exists\<close> is
  true of both, \<^verbatim>\<open>os.path.isdir\<close> of directories only, and \<^verbatim>\<open>makedirs\<close> raises when
  the path exists or a parent of it is a regular file.\<close>

record file_system =
  regular_files :: "string list"
  directories :: "string list"

definition isdir :: "file_system \<Rightarrow> string \<Rightarrow> bool" where
  "isdir f p = (p \<in> set (directories f))"

definition file_os :: "file_system os" where
  "file_os =
     \<lparr>path_exists = (\<lambda>f p. p \<in> set (regular_files f) \<or> p \<in> set (directories f)),
      os_makedirs = (\<lambda>f p.
        if p = [] \<or> p \<in> set (regular_files f) \<or> p \<in> set (directories f) \<or>
           list_ex (\<lambda>q. q \<in> set (regular_files f)) (parents p)
        then (False, f)
        else (True, f\<lparr>directories :=
                directories f @ filter (\<lambda>q. q \<notin> set (directories f)) (parents p) @ [p]\<rparr>))\<rparr>"

text \<open>What the properties below assume of the file system: a \<^verbatim>\<open>makedirs\<close> that returns
  has made its path exist, and no \<^verbatim>\<open>makedirs\<close> removes a path.\<close>

definition creates_and_keeps :: "'fs os \<Rightarrow> bool" where
  "creates_and_keeps os =
     (\<forall>f p. (fst (os_makedirs os f p) \<longrightarrow> path_exists os (snd (os_makedirs os f p)) p) \<and>
            (\<forall>q. path_exists os f q \<longrightarrow> path_exists os (snd (os_makedirs os f p)) q))"

section \<open>Properties\<close>

subsection \<open>The lazy reads and the directory loop\<close>

lemma getattr_setattr:
  "getattr (setattr ns k v) k' = (if k' = k then Inr v else getattr ns k')"
  by (simp add: getattr_def setattr_def update_conv')

lemma parsed_cached: "parsed_cache s = Some c \<Longrightarrow> parsed b s = (Inr c, s)"
  by (simp add: parsed_def)

lemma parsed_frame:
  "parsed b s = (r, s') \<Longrightarrow>
     argv s' = argv s \<and> fs s' = fs s \<and> executor_cache s' = executor_cache s"
  by (auto simp: parsed_def parsed_body_def Let_def split: option.splits sum.splits prod.splits)

lemma parsed_returns:
  "parsed b s = (Inr c, s') \<Longrightarrow> parsed_cache s' = Some c"
  by (auto simp: parsed_def parsed_body_def Let_def split: option.splits sum.splits prod.splits)

lemma parsed_fresh_returns:
  assumes "parsed_cache s = None" and "parsed b s = (Inr c, s')"
  shows "s' = s\<lparr>next_id := Suc (next_id s), trace := trace s @ [ParseArgs], parsed_cache := Some c\<rparr>"
    and "oid c = next_id s"
    and "\<exists>ns ns1. parse_args b (argv s) = Inr ns \<and> set_run_type ns = Inr ns1 \<and>
           set_run_train_dir ns1 = Inr (attrs c)"
  using assms
  by (auto simp: parsed_def parsed_body_def Let_def split: option.splits sum.splits prod.splits)

lemma parsed_fresh_raises:
  assumes "parsed_cache s = None" and "parsed b s = (Inl e, s')"
  shows "trace s' = trace s @ [ParseArgs]" and "parsed_cache s' = None"
  using assms
  by (auto simp: parsed_def parsed_body_def Let_def split: option.splits sum.splits prod.splits)

lemma parsed_trace:
  "parsed b s = (r, s') \<Longrightarrow> trace s' = trace s \<or> trace s' = trace s @ [ParseArgs]"
  by (auto simp: parsed_def parsed_body_def Let_def split: option.splits sum.splits prod.splits)

lemma set_run_train_dir_returns:
  "set_run_train_dir ns = Inr ns' \<Longrightarrow>
     \<exists>t n. getattr ns ''train_dir'' = Inr (PyStr t) \<and> getattr ns ''run_name'' = Inr (PyStr n) \<and>
           ns' = setattr ns ''run_train_dir'' (PyStr (t @ ''/'' @ n))"
  by (auto simp: set_run_train_dir_def str_add_def split: sum.splits pyval.splits)

lemma parsed_attrs_cached:
  "parsed_cache s = Some c \<Longrightarrow> parsed_attrs b ks s = (r, s') \<Longrightarrow>
     s' = s \<and> (\<forall>vs. r = Inr vs \<longrightarrow> map (getattr (attrs c)) ks = map Inr vs)"
proof (induction ks arbitrary: r s')
  case Nil
  then show ?case by auto
next
  case (Cons k ks)
  obtain r0 s0 where rest: "parsed_attrs b ks s = (r0, s0)" by (cases "parsed_attrs b ks s")
  from Cons.IH [OF Cons.prems(1) rest] Cons.prems rest show ?case
    by (auto simp: parsed_cached split: sum.splits)
qed

lemma parsed_attrs_cached_returns:
  assumes "parsed_cache s = Some c" and "map (getattr (attrs c)) ks = map Inr vs"
  shows "parsed_attrs b ks s = (Inr vs, s)"
  using assms
  by (induction ks arbitrary: vs) (auto simp: parsed_cached)


lemma parsed_attrs_state:
  "parsed_attrs b (k # ks) s = (r, s') \<Longrightarrow> \<exists>r0. parsed b s = (r0, s')"
proof -
  assume a: "parsed_attrs b (k # ks) s = (r, s')"
  obtain r0 s1 where p: "parsed b s = (r0, s1)" by (cases "parsed b s")
  show ?thesis
  proof (cases r0)
    case (Inl e)
    with a p show ?thesis by simp
  next
    case (Inr c)
    with p have c: "parsed_cache s1 = Some c" by (simp add: parsed_returns)
    obtain r1 s2 where q: "parsed_attrs b ks s1 = (r1, s2)" by (cases "parsed_attrs b ks s1")
    from parsed_attrs_cached [OF c q] have "s2 = s1" by simp
    with a p Inr q show ?thesis by (auto split: sum.splits)
  qed
qed

lemma parsed_attrs_returns:
  assumes "parsed_attrs b (k # ks) s = (Inr vs, s')"
  shows "\<exists>c. parsed b s = (Inr c, s') \<and> map (getattr (attrs c)) (k # ks) = map Inr vs"
proof -
  obtain r0 s1 where p: "parsed b s = (r0, s1)" by (cases "parsed b s")
  from assms p obtain c where r0: "r0 = Inr c" by (cases r0) auto
  with p have c: "parsed_cache s1 = Some c" by (simp add: parsed_returns)
  obtain r1 s2 where q: "parsed_attrs b ks s1 = (r1, s2)" by (cases "parsed_attrs b ks s1")
  from parsed_attrs_cached [OF c q] have s2: "s2 = s1"
    and vs: "\<forall>ws. r1 = Inr ws \<longrightarrow> map (getattr (attrs c)) ks = map Inr ws" by simp_all
  from assms p r0 q s2 vs show ?thesis by (auto split: sum.splits)
qed

lemma ensure_each_frame:
  "ensure_each os ds s = (r, s') \<Longrightarrow>
     argv s' = argv s \<and> next_id s' = next_id s \<and> parsed_cache s' = parsed_cache s \<and>
     executor_cache s' = executor_cache s"
  by (induction os ds s rule: ensure_each.induct)
     (auto simp: Let_def split: if_splits prod.splits)

lemma ensure_each_keeps:
  "creates_and_keeps os \<Longrightarrow> ensure_each os ds s = (r, s') \<Longrightarrow>
     path_exists os (fs s) q \<Longrightarrow> path_exists os (fs s') q"
proof (induction os ds s rule: ensure_each.induct)
  case (2 os d ds s)
  show ?case
  proof (cases "path_exists os (fs s) d")
    case True
    with 2 show ?thesis by simp
  next
    case False
    obtain ok f' where m: "os_makedirs os (fs s) d = (ok, f')" by (cases "os_makedirs os (fs s) d")
    from "2.prems"(1) m "2.prems"(3) have k: "path_exists os f' q"
      unfolding creates_and_keeps_def by (metis snd_conv)
    from 2 False m k show ?thesis by (auto simp: Let_def split: if_splits)
  qed
qed auto

lemma ensure_each_exists:
  "creates_and_keeps os \<Longrightarrow> ensure_each os ds s = (Inr (), s') \<Longrightarrow>
     \<forall>v\<in>set ds. \<exists>d. v = PyStr d \<and> path_exists os (fs s') d"
proof (induction os ds s rule: ensure_each.induct)
  case (2 os d ds s)
  show ?case
  proof (cases "path_exists os (fs s) d")
    case True
    with 2 have "\<forall>v\<in>set ds. \<exists>d. v = PyStr d \<and> path_exists os (fs s') d" by simp
    moreover from True 2 have "path_exists os (fs s') d" by (auto dest: ensure_each_keeps)
    ultimately show ?thesis by simp
  next
    case False
    obtain ok f' where m: "os_makedirs os (fs s) d = (ok, f')" by (cases "os_makedirs os (fs s) d")
    let ?s = "s\<lparr>fs := f', trace := trace s @ [Makedirs d]\<rparr>"
    from "2.prems" False m have ok: ok and e: "ensure_each os ds ?s = (Inr (), s')"
      by (auto simp: Let_def split: if_splits)
    from "2.prems"(1) m ok have "path_exists os f' d"
      unfolding creates_and_keeps_def by (metis fst_conv snd_conv)
    with ensure_each_keeps [OF "2.prems"(1) e, of d] have "path_exists os (fs s') d" by simp
    moreover from "2.IH"(2) [OF False m [symmetric] refl ok "2.prems"(1) e]
    have "\<forall>v\<in>set ds. \<exists>d. v = PyStr d \<and> path_exists os (fs s') d" .
    ultimately show ?thesis by simp
  qed
qed auto

lemma ensure_each_noop:
  "\<forall>v\<in>set ds. \<exists>d. v = PyStr d \<and> path_exists os (fs s) d \<Longrightarrow> ensure_each os ds s = (Inr (), s)"
  by (induction os ds s rule: ensure_each.induct) auto


lemma ensure_each_trace:
  "ensure_each os ds s = (r, s') \<Longrightarrow>
     \<exists>ps. trace s' = trace s @ map Makedirs ps \<and> (\<forall>p\<in>set ps. PyStr p \<in> set ds)"
proof (induction os ds s rule: ensure_each.induct)
  case (2 os d ds s)
  show ?case
  proof (cases "path_exists os (fs s) d")
    case True
    with 2 show ?thesis by auto
  next
    case False
    obtain ok f' where m: "os_makedirs os (fs s) d = (ok, f')" by (cases "os_makedirs os (fs s) d")
    let ?s = "s\<lparr>fs := f', trace := trace s @ [Makedirs d]\<rparr>"
    show ?thesis
    proof (cases ok)
      case True
      with "2.prems" False m have e: "ensure_each os ds ?s = (r, s')" by (simp add: Let_def)
      from "2.IH"(2) [OF False m [symmetric] refl True e]
      obtain ps where "trace s' = trace ?s @ map Makedirs ps" "\<forall>p\<in>set ps. PyStr p \<in> set ds"
        by blast
      then have "trace s' = trace s @ map Makedirs (d # ps) \<and> (\<forall>p\<in>set (d # ps). PyStr p \<in> set (PyStr d # ds))"
        by simp
      then show ?thesis by blast
    next
      case no: False
      with "2.prems" False m have "trace s' = trace s @ map Makedirs [d]" by (auto simp: Let_def)
      then show ?thesis by (intro exI [of _ "[d]"]) simp
    qed
  qed
qed auto

lemma ensure_each_created:
  "creates_and_keeps os \<Longrightarrow> ensure_each os ds s = (r, s') \<Longrightarrow>
     Makedirs p \<in> set (drop (length (trace s)) (trace s')) \<Longrightarrow> \<not> path_exists os (fs s) p"
proof (induction os ds s rule: ensure_each.induct)
  case (2 os d ds s)
  show ?case
  proof (cases "path_exists os (fs s) d")
    case True
    with 2 show ?thesis by auto
  next
    case False
    obtain ok f' where m: "os_makedirs os (fs s) d = (ok, f')" by (cases "os_makedirs os (fs s) d")
    let ?s = "s\<lparr>fs := f', trace := trace s @ [Makedirs d]\<rparr>"
    show ?thesis
    proof (cases ok)
      case True
      with "2.prems" False m have e: "ensure_each os ds ?s = (r, s')" by (simp add: Let_def)
      from ensure_each_trace [OF e] obtain ps where t: "trace s' = trace s @ Makedirs d # map Makedirs ps"
        by auto
      from "2.prems"(3) t have "p = d \<or> Makedirs p \<in> set (drop (length (trace ?s)) (trace s'))" by auto
      then show ?thesis
      proof
        assume "p = d"
        with False show ?thesis by simp
      next
        assume "Makedirs p \<in> set (drop (length (trace ?s)) (trace s'))"
        from "2.IH"(2) [OF False m [symmetric] refl True "2.prems"(1) e this]
        have "\<not> path_exists os f' p" by simp
        with "2.prems"(1) m show ?thesis unfolding creates_and_keeps_def by (metis snd_conv)
      qed
    next
      case no: False
      with "2.prems" False m have "trace s' = trace s @ [Makedirs d]" by (auto simp: Let_def)
      with "2.prems"(3) False show ?thesis by simp
    qed
  qed
qed auto

subsection \<open>The derived fields\<close>

text \<open>
  C1 (\<^verbatim>\<open>run_type\<close> for every parsed command line, \<^verbatim>\<open>other\<close> when the command is absent),
  at the command line with no sub-command: argparse accepts it and leaves
  \<^verbatim>\<open>command = None\<close> as the only attribute; line 129 then sets \<^verbatim>\<open>run_type\<close> to
  \<^verbatim>\<open>other\<close>, and line 131 raises AttributeError on \<^verbatim>\<open>parsed.train_dir\<close>, which only
  the sub-command parsers define. \<^verbatim>\<open>parsed\<close> returns no configuration and caches nothing.
\<close>

theorem parsed_without_command_raises:
  "parse_args b [] = Inr [(''command'', PyNone)] \<and>
   set_run_type [(''command'', PyNone)] = Inr [(''command'', PyNone), (''run_type'', PyStr ''other'')] \<and>
   parsed b (start [] f) =
     (Inl (AttributeError ''train_dir''), (start [] f)\<lparr>next_id := 1, trace := [ParseArgs]\<rparr>)"
proof -
  have p: "parse_args b [] = Inr [(''command'', PyNone)]" by code_simp
  have r: "set_run_type [(''command'', PyNone)] =
      Inr [(''command'', PyNone), (''run_type'', PyStr ''other'')]" by code_simp
  have d: "set_run_train_dir [(''command'', PyNone), (''run_type'', PyStr ''other'')] =
      Inl (AttributeError ''train_dir'')" by code_simp
  show ?thesis by (simp add: p r d parsed_def parsed_body_def start_def)
qed

lemma default_run_train_dir:
  "case parsed b (start [''train''] f) of
     (Inr c, s') \<Rightarrow> getattr (attrs c) ''run_train_dir'' = Inr (PyStr ''train/noname'') | _ \<Rightarrow> False"
  "case parsed b (start [''evaluate''] f) of
     (Inr c, s') \<Rightarrow> getattr (attrs c) ''run_train_dir'' = Inr (PyStr ''train/noname'') | _ \<Rightarrow> False"
  "case parsed b (start [''record''] f) of
     (Inr c, s') \<Rightarrow> getattr (attrs c) ''run_train_dir'' = Inr (PyStr ''train/noname'') | _ \<Rightarrow> False"
  "case parsed b (start [''search''] f) of
     (Inr c, s') \<Rightarrow> getattr (attrs c) ''run_train_dir'' = Inr (PyStr ''train/noname'') | _ \<Rightarrow> False"
  by code_simp+

text \<open>
  Whenever \<^verbatim>\<open>parsed\<close> returns a configuration, its \<^verbatim>\<open>train_dir\<close> and \<^verbatim>\<open>run_name\<close>
  are strings and \<^verbatim>\<open>run_train_dir\<close> is the one, a \<^verbatim>\<open>/\<close>, and the other, concatenated
  as they are; for each of the four commands given without options it is
  \<^verbatim>\<open>train/noname\<close>.
\<close>

theorem run_train_dir_is_plain_join:
  "(parsed b (start args f) = (Inr c, s') \<longrightarrow>
      (\<exists>t n. getattr (attrs c) ''train_dir'' = Inr (PyStr t) \<and>
             getattr (attrs c) ''run_name'' = Inr (PyStr n) \<and>
             getattr (attrs c) ''run_train_dir'' = Inr (PyStr (t @ ''/'' @ n)))) \<and>
   (cmd \<in> set (map fst subparsers) \<longrightarrow>
      (\<exists>c0 s0. parsed b (start [cmd] f) = (Inr c0, s0) \<and>
         getattr (attrs c0) ''run_train_dir'' = Inr (PyStr ''train/noname'')))"
proof (intro conjI impI)
  assume p: "parsed b (start args f) = (Inr c, s')"
  have "parsed_cache (start args f) = None" by (simp add: start_def)
  from parsed_fresh_returns(3) [OF this p] obtain ns1 where "set_run_train_dir ns1 = Inr (attrs c)"
    by blast
  from set_run_train_dir_returns [OF this]
  show "\<exists>t n. getattr (attrs c) ''train_dir'' = Inr (PyStr t) \<and>
             getattr (attrs c) ''run_name'' = Inr (PyStr n) \<and>
             getattr (attrs c) ''run_train_dir'' = Inr (PyStr (t @ ''/'' @ n))"
    by (auto simp: getattr_setattr)
next
  assume "cmd \<in> set (map fst subparsers)"
  then consider "cmd = ''train''" | "cmd = ''evaluate''" | "cmd = ''record''" | "cmd = ''search''"
    by (auto simp: subparsers_def)
  then show "\<exists>c0 s0. parsed b (start [cmd] f) = (Inr c0, s0) \<and>
         getattr (attrs c0) ''run_train_dir'' = Inr (PyStr ''train/noname'')"
    using default_run_train_dir [of b f]
    by cases (auto split: prod.splits sum.splits)
qed

theorem run_train_dir_is_plain_join_witness:
  "\<exists>c s'. parsed sample_builtins
            (start [''evaluate'', ''--train-dir'', ''runs/'', ''--run-name'', ''x''] ([]::string list)) = (Inr c, s') \<and>
     getattr (attrs c) ''run_train_dir'' = Inr (PyStr ''runs//x'') \<and>
     ''record'' \<in> set (map fst subparsers) \<and>
     (\<exists>c0 s0. parsed sample_builtins (start [''record''] ([]::string list)) = (Inr c0, s0) \<and>
         getattr (attrs c0) ''run_train_dir'' = Inr (PyStr ''train/noname''))"
proof -
  let ?args = "[''evaluate'', ''--train-dir'', ''runs/'', ''--run-name'', ''x'']"
  have "case parsed sample_builtins (start ?args ([]::string list)) of
          (Inr c, s') \<Rightarrow> getattr (attrs c) ''train_dir'' = Inr (PyStr ''runs/'') \<and>
                         getattr (attrs c) ''run_name'' = Inr (PyStr ''x'')
        | _ \<Rightarrow> False"
    by code_simp
  then obtain c s' where p: "parsed sample_builtins (start ?args ([]::string list)) = (Inr c, s')"
    and t: "getattr (attrs c) ''train_dir'' = Inr (PyStr ''runs/'')"
    and n: "getattr (attrs c) ''run_name'' = Inr (PyStr ''x'')"
    by (auto split: prod.splits sum.splits)
  have m: "''record'' \<in> set (map fst subparsers)" by (simp add: subparsers_def)
  from run_train_dir_is_plain_join [of sample_builtins ?args "[]::string list" c s' "''record''"] p t n m
  show ?thesis by auto
qed

text \<open>
  C2 (\<^verbatim>\<open>run_train_dir\<close> is \<^verbatim>\<open>train_dir\<close>, the separator and \<^verbatim>\<open>run_name\<close> for every
  parsed command line, \<^verbatim>\<open>train/noname\<close> with all defaults), at the command line with no
  sub-command: argparse accepts it, but the namespace has no \<^verbatim>\<open>train_dir\<close>, so the
  assignment of line 131 raises AttributeError and sets no \<^verbatim>\<open>run_train_dir\<close>;
  \<^verbatim>\<open>parsed\<close> returns no configuration and caches nothing.
\<close>

theorem run_train_dir_without_command_raises:
  "parse_args b [] = Inr [(''command'', PyNone)] \<and>
   set_run_type [(''command'', PyNone)] = Inr [(''command'', PyNone), (''run_type'', PyStr ''other'')] \<and>
   set_run_train_dir [(''command'', PyNone), (''run_type'', PyStr ''other'')] =
     Inl (AttributeError ''train_dir'') \<and>
   fst (parsed b (start [] f)) = Inl (AttributeError ''train_dir'') \<and>
   parsed_cache (snd (parsed b (start [] f))) = None"
proof -
  have p: "parse_args b [] = Inr [(''command'', PyNone)]" by code_simp
  have r: "set_run_type [(''command'', PyNone)] =
      Inr [(''command'', PyNone), (''run_type'', PyStr ''other'')]" by code_simp
  have d: "set_run_train_dir [(''command'', PyNone), (''run_type'', PyStr ''other'')] =
      Inl (AttributeError ''train_dir'')" by code_simp
  show ?thesis by (simp add: p r d parsed_def parsed_body_def start_def)
qed

lemma command_executor_fresh:
  assumes "parsed_cache s = Some c" and "executor_cache s = None"
  shows "command_executor b s =
     (case getattr (attrs c) ''command'' of
        Inl e \<Rightarrow> (Inl e, s)
      | Inr k \<Rightarrow>
          (case map_of command_registry k of
             None \<Rightarrow> (Inl (KeyError k), s)
           | Some class \<Rightarrow>
               (Inr \<lparr>eid = next_id s, cls = class, conf = c\<rparr>,
                s\<lparr>next_id := Suc (next_id s), trace := trace s @ [Construct class (oid c)],
                  executor_cache := Some \<lparr>eid = next_id s, cls = class, conf = c\<rparr>\<rparr>)))"
  using assms
  by (simp add: command_executor_def command_executor_body_def parsed_cached
      split: sum.splits option.splits)

lemma command_executor_cached:
  "executor_cache s = Some x \<Longrightarrow> command_executor b s = (Inr x, s)"
  by (simp add: command_executor_def)

lemma ensure_directories_cases:
  assumes "ensure_directories b os s = (r, s')"
  shows "(\<exists>e r0. r = Inl e \<and> parsed b s = (r0, s')) \<or>
         (\<exists>c s1 ds. parsed b s = (Inr c, s1) \<and>
             map (getattr (attrs c)) directory_names = map Inr ds \<and>
             ensure_each os ds s1 = (r, s'))"
proof -
  obtain r1 s1 where a: "parsed_attrs b directory_names s = (r1, s1)"
    by (cases "parsed_attrs b directory_names s")
  have dn: "directory_names = ''train_dir'' # [''data_dir'', ''log_dir'', ''run_train_dir'']"
    by (simp add: directory_names_def)
  show ?thesis
  proof (cases r1)
    case (Inl e)
    with assms a have r: "r = Inl e" "s' = s1" by (simp_all add: ensure_directories_def)
    from a have "parsed_attrs b (''train_dir'' # [''data_dir'', ''log_dir'', ''run_train_dir'']) s = (r1, s1)"
      by (simp only: dn)
    from parsed_attrs_state [OF this] obtain r0 where p: "parsed b s = (r0, s1)" by blast
    with r show ?thesis by auto
  next
    case (Inr ds)
    with a have "parsed_attrs b (''train_dir'' # [''data_dir'', ''log_dir'', ''run_train_dir'']) s = (Inr ds, s1)"
      by (simp only: dn)
    from parsed_attrs_returns [OF this]
    obtain c where "parsed b s = (Inr c, s1)" "map (getattr (attrs c)) directory_names = map Inr ds"
      unfolding dn by blast
    with assms a Inr show ?thesis by (auto simp: ensure_directories_def)
  qed
qed

lemma ensure_directories_cached:
  assumes "parsed_cache s = Some c" and "map (getattr (attrs c)) directory_names = map Inr ds"
  shows "ensure_directories b os s = ensure_each os ds s"
  using parsed_attrs_cached_returns [OF assms, of b] by (simp add: ensure_directories_def)

lemma count_makedirs: "count_list (map Makedirs ps) ParseArgs = 0"
  by (induction ps) auto

text \<open>
  C3: a read of \<^verbatim>\<open>parsed\<close> that returns leaves its result in the instance, and every
  later read returns that same object (the same identity and attributes) without touching
  the process state: nothing is parsed again, whatever \<^verbatim>\<open>sys.argv\<close> or the converters
  are by then. One read adds at most one call of \<^verbatim>\<open>parse_args\<close>, and a whole
  \<^verbatim>\<open>run\<close> of a fresh process makes exactly one, whether it succeeds or aborts.
\<close>

theorem parsed_is_memoized:
  "(parsed b s = (Inr c, s1) \<longrightarrow>
      parsed_cache s1 = Some c \<and>
      parsed b' (s1\<lparr>argv := args'\<rparr>) = (Inr c, s1\<lparr>argv := args'\<rparr>) \<and>
      count_list (trace s1) ParseArgs \<le> Suc (count_list (trace s) ParseArgs)) \<and>
   count_list (trace (snd (run b os (start args f)))) ParseArgs = 1"
proof (intro conjI impI)
  assume p: "parsed b s = (Inr c, s1)"
  then show "parsed_cache s1 = Some c" by (rule parsed_returns)
  then show "parsed b' (s1\<lparr>argv := args'\<rparr>) = (Inr c, s1\<lparr>argv := args'\<rparr>)"
    by (simp add: parsed_cached)
  from parsed_trace [OF p]
  show "count_list (trace s1) ParseArgs \<le> Suc (count_list (trace s) ParseArgs)" by auto
next
  let ?s = "start args f"
  have fresh: "parsed_cache ?s = None" "executor_cache ?s = None" "trace ?s = []"
    by (simp_all add: start_def)
  obtain r s' where e: "ensure_directories b os ?s = (r, s')"
    by (cases "ensure_directories b os ?s")
  from ensure_directories_cases [OF e]
  show "count_list (trace (snd (run b os ?s))) ParseArgs = 1"
  proof (elim disjE exE conjE)
    fix e0 r0 assume r: "r = Inl e0" and p: "parsed b ?s = (r0, s')"
    have "trace s' = [ParseArgs]"
    proof (cases r0)
      case (Inl x)
      with p have "parsed b ?s = (Inl x, s')" by simp
      from parsed_fresh_raises(1) [OF fresh(1) this] fresh(3) show ?thesis by simp
    next
      case (Inr x)
      with p have "parsed b ?s = (Inr x, s')" by simp
      from parsed_fresh_returns(1) [OF fresh(1) this] fresh(3) show ?thesis by simp
    qed
    with e r show ?thesis by (simp add: run_def)
  next
    fix c s1 ds
    assume p: "parsed b ?s = (Inr c, s1)"
      and ee: "ensure_each os ds s1 = (r, s')"
    from parsed_fresh_returns(1) [OF fresh(1) p] fresh
    have s1: "trace s1 = [ParseArgs]" "parsed_cache s1 = Some c" "executor_cache s1 = None"
      by simp_all
    from ensure_each_trace [OF ee] s1 obtain ps where t: "trace s' = ParseArgs # map Makedirs ps"
      by auto
    then have n: "count_list (trace s') ParseArgs = 1" by (simp add: count_makedirs)
    from ensure_each_frame [OF ee] s1
    have c: "parsed_cache s' = Some c" "executor_cache s' = None" by simp_all
    show ?thesis
    proof (cases r)
      case (Inl x)
      with e n show ?thesis by (simp add: run_def)
    next
      case (Inr u)
      with e n show ?thesis
        by (simp add: run_def command_executor_fresh [OF c] split: sum.splits option.splits)
    qed
  qed
qed


theorem parsed_is_memoized_witness:
  "\<exists>c s1. parsed sample_builtins (start [''train''] ([]::string list)) = (Inr c, s1) \<and>
     parsed_cache s1 = Some c \<and>
     parsed sample_builtins (s1\<lparr>argv := [''bogus'']\<rparr>) = (Inr c, s1\<lparr>argv := [''bogus'']\<rparr>) \<and>
     count_list (trace s1) ParseArgs \<le> Suc (count_list (trace (start [''train''] ([]::string list))) ParseArgs) \<and>
     count_list (trace (snd (run sample_builtins sample_os (start [''train''] [])))) ParseArgs = 1"
proof -
  have "case parsed sample_builtins (start [''train''] ([]::string list)) of
          (Inr c, s1) \<Rightarrow> True | _ \<Rightarrow> False"
    by code_simp
  then obtain c s1 where p: "parsed sample_builtins (start [''train''] ([]::string list)) = (Inr c, s1)"
    by (auto split: prod.splits sum.splits)
  from parsed_is_memoized [of sample_builtins "start [''train''] ([]::string list)" c s1
      sample_builtins "[''bogus'']" sample_os "[''train'']" "[]"] p
  show ?thesis by blast
qed

lemma sample_os_creates_and_keeps: "creates_and_keeps sample_os"
  by (auto simp: creates_and_keeps_def sample_os_def)

text \<open>
  C4: on a file system where \<^verbatim>\<open>makedirs\<close> makes its path exist and removes nothing,
  a second \<^verbatim>\<open>_ensure_directories\<close> after one that returned changes nothing and returns:
  no \<^verbatim>\<open>makedirs\<close> call, no new event, no error. The first call invokes
  \<^verbatim>\<open>makedirs\<close> only on paths that did not exist when it started.
\<close>

theorem ensure_directories_is_idempotent:
  assumes "creates_and_keeps os" and "ensure_directories b os s = (Inr (), s1)"
  shows "ensure_directories b os s1 = (Inr (), s1) \<and>
         (\<forall>p. Makedirs p \<in> set (drop (length (trace s)) (trace s1)) \<longrightarrow> \<not> path_exists os (fs s) p)"
proof -
  from ensure_directories_cases [OF assms(2)]
  obtain c s0 ds where p: "parsed b s = (Inr c, s0)"
    and ds: "map (getattr (attrs c)) directory_names = map Inr ds"
    and e: "ensure_each os ds s0 = (Inr (), s1)"
    by auto
  from p have "parsed_cache s0 = Some c" by (rule parsed_returns)
  with ensure_each_frame [OF e] have c: "parsed_cache s1 = Some c" by simp
  from ensure_each_exists [OF assms(1) e]
  have "ensure_each os ds s1 = (Inr (), s1)" by (rule ensure_each_noop)
  with ensure_directories_cached [OF c ds, of b os]
  have again: "ensure_directories b os s1 = (Inr (), s1)" by simp
  have "\<not> path_exists os (fs s) q" if q: "Makedirs q \<in> set (drop (length (trace s)) (trace s1))" for q
  proof -
    from ensure_each_trace [OF e] obtain ps where t: "trace s1 = trace s0 @ map Makedirs ps" by blast
    from parsed_trace [OF p] q t
    have "Makedirs q \<in> set (drop (length (trace s0)) (trace s1))" by auto
    from ensure_each_created [OF assms(1) e this] parsed_frame [OF p] show ?thesis by simp
  qed
  with again show ?thesis by blast
qed

theorem ensure_directories_is_idempotent_witness:
  "creates_and_keeps sample_os \<and>
   (\<exists>s1. ensure_directories sample_builtins sample_os (start [''train''] [''train'']) = (Inr (), s1) \<and>
      fs s1 = [''train'', ''data'', ''log'', ''train/noname''] \<and>
      ensure_directories sample_builtins sample_os s1 = (Inr (), s1) \<and>
      (\<forall>p. Makedirs p \<in> set (drop (length (trace (start [''train''] [''train'']))) (trace s1)) \<longrightarrow>
           \<not> path_exists sample_os (fs (start [''train''] [''train''])) p))"
proof -
  have "case ensure_directories sample_builtins sample_os (start [''train''] [''train'']) of
          (Inr u, s1) \<Rightarrow> fs s1 = [''train'', ''data'', ''log'', ''train/noname''] | _ \<Rightarrow> False"
    by code_simp
  then obtain s1 where e: "ensure_directories sample_builtins sample_os (start [''train''] [''train'']) = (Inr (), s1)"
    and f: "fs s1 = [''train'', ''data'', ''log'', ''train/noname'']"
    by (auto split: prod.splits sum.splits)
  from ensure_directories_is_idempotent [OF sample_os_creates_and_keeps e] e f
    sample_os_creates_and_keeps
  show ?thesis by blast
qed

lemma map_getattr_values:
  assumes "map (getattr ns) ks = map Inr ds"
  shows "\<forall>k\<in>set ks. \<exists>v\<in>set ds. getattr ns k = Inr v"
    and "\<forall>v\<in>set ds. \<exists>k\<in>set ks. getattr ns k = Inr v"
proof -
  from assms have "set (map (getattr ns) ks) = set (map Inr ds)" by simp
  then have eq: "getattr ns ` set ks = Inr ` set ds" by simp
  then show "\<forall>k\<in>set ks. \<exists>v\<in>set ds. getattr ns k = Inr v" by blast
  from eq show "\<forall>v\<in>set ds. \<exists>k\<in>set ks. getattr ns k = Inr v"
    by (metis (no_types, lifting) image_iff)
qed

text \<open>
  When \<^verbatim>\<open>run\<close> of a fresh process succeeds, \<^verbatim>\<open>_ensure_directories\<close> has returned first,
  in a state where \<^verbatim>\<open>os.path.exists\<close> holds of the four paths \<^verbatim>\<open>train_dir\<close>,
  \<^verbatim>\<open>data_dir\<close>, \<^verbatim>\<open>log_dir\<close> and \<^verbatim>\<open>run_train_dir\<close> of the configuration; up to
  there the process has only parsed and called \<^verbatim>\<open>makedirs\<close> on paths among those four;
  the construction of the executor and the call of its \<^verbatim>\<open>run()\<close> are the two events
  that follow, on the same file system. (That a path exists does not make it a
  directory: see below.)
\<close>

theorem directories_exist_before_run:
  assumes "creates_and_keeps os" and "run b os (start args f) = (Inr (), s')"
  shows "\<exists>s1 c (x::executor).
           ensure_directories b os (start args f) = (Inr (), s1) \<and>
           parsed_cache s1 = Some c \<and>
           (\<forall>k\<in>set directory_names. \<exists>d. getattr (attrs c) k = Inr (PyStr d) \<and> path_exists os (fs s1) d) \<and>
           (\<forall>e\<in>set (trace s1). e = ParseArgs \<or>
               (\<exists>k\<in>set directory_names. \<exists>d. getattr (attrs c) k = Inr (PyStr d) \<and> e = Makedirs d)) \<and>
           trace s' = trace s1 @ [Construct (cls x) (oid c), Run (eid x)] \<and>
           fs s' = fs s1"
proof -
  let ?s = "start args f"
  have fresh: "parsed_cache ?s = None" "executor_cache ?s = None" "trace ?s = []"
    by (simp_all add: start_def)
  obtain r s1 where e: "ensure_directories b os ?s = (r, s1)"
    by (cases "ensure_directories b os ?s")
  with assms(2) have r: "r = Inr ()" by (cases r) (auto simp: run_def)
  from ensure_directories_cases [OF e] r
  obtain c s0 ds where p: "parsed b ?s = (Inr c, s0)"
    and ds: "map (getattr (attrs c)) directory_names = map Inr ds"
    and ee: "ensure_each os ds s0 = (Inr (), s1)"
    by auto
  from parsed_fresh_returns(1) [OF fresh(1) p] fresh
  have s0: "trace s0 = [ParseArgs]" "parsed_cache s0 = Some c" "executor_cache s0 = None"
    by simp_all
  from ensure_each_frame [OF ee] s0
  have c: "parsed_cache s1 = Some c" "executor_cache s1 = None" by simp_all
  from ensure_each_exists [OF assms(1) ee] map_getattr_values(1) [OF ds]
  have ex: "\<forall>k\<in>set directory_names. \<exists>d. getattr (attrs c) k = Inr (PyStr d) \<and> path_exists os (fs s1) d"
    by metis
  from ensure_each_trace [OF ee] s0 obtain ps
    where t: "trace s1 = ParseArgs # map Makedirs ps" and ps: "\<forall>p\<in>set ps. PyStr p \<in> set ds"
    by auto
  from ps map_getattr_values(2) [OF ds]
  have "\<forall>p\<in>set ps. \<exists>k\<in>set directory_names. getattr (attrs c) k = Inr (PyStr p)" by blast
  with t have tr: "\<forall>e\<in>set (trace s1). e = ParseArgs \<or>
               (\<exists>k\<in>set directory_names. \<exists>d. getattr (attrs c) k = Inr (PyStr d) \<and> e = Makedirs d)"
    by auto
  from assms(2) e r command_executor_fresh [OF c, of b]
  have "\<exists>class. trace s' = trace s1 @ [Construct class (oid c), Run (next_id s1)] \<and> fs s' = fs s1"
    by (auto simp: run_def split: sum.splits option.splits)
  then obtain cl where "trace s' = trace s1 @ [Construct cl (oid c), Run (next_id s1)]"
    and "fs s' = fs s1" by blast
  define x where "x = \<lparr>eid = next_id s1, cls = cl, conf = c\<rparr>"
  have "trace s' = trace s1 @ [Construct (cls x) (oid c), Run (eid x)]"
    by (simp add: x_def \<open>trace s' = trace s1 @ [Construct cl (oid c), Run (next_id s1)]\<close>)
  moreover from e r have "ensure_directories b os ?s = (Inr (), s1)" by simp
  ultimately have "ensure_directories b os ?s = (Inr (), s1) \<and>
           parsed_cache s1 = Some c \<and>
           (\<forall>k\<in>set directory_names. \<exists>d. getattr (attrs c) k = Inr (PyStr d) \<and> path_exists os (fs s1) d) \<and>
           (\<forall>e\<in>set (trace s1). e = ParseArgs \<or>
               (\<exists>k\<in>set directory_names. \<exists>d. getattr (attrs c) k = Inr (PyStr d) \<and> e = Makedirs d)) \<and>
           trace s' = trace s1 @ [Construct (cls x) (oid c), Run (eid x)] \<and>
           fs s' = fs s1"
    using c(1) ex tr \<open>fs s' = fs s1\<close> by (intro conjI)
  then show ?thesis by blast
qed

theorem directories_exist_before_run_witness:
  "creates_and_keeps sample_os \<and>
   (\<exists>s'. run sample_builtins sample_os (start [''record'', ''--run-name'', ''r1''] [''data'']) = (Inr (), s') \<and>
      trace s' = [ParseArgs, Makedirs ''train'', Makedirs ''log'', Makedirs ''train/r1'',
                  Construct Recording 0, Run 1] \<and>
      (\<exists>s1 c (x::executor).
           ensure_directories sample_builtins sample_os (start [''record'', ''--run-name'', ''r1''] [''data'']) = (Inr (), s1) \<and>
           parsed_cache s1 = Some c \<and>
           (\<forall>k\<in>set directory_names. \<exists>d. getattr (attrs c) k = Inr (PyStr d) \<and> path_exists sample_os (fs s1) d) \<and>
           (\<forall>e\<in>set (trace s1). e = ParseArgs \<or>
               (\<exists>k\<in>set directory_names. \<exists>d. getattr (attrs c) k = Inr (PyStr d) \<and> e = Makedirs d)) \<and>
           trace s' = trace s1 @ [Construct (cls x) (oid c), Run (eid x)] \<and>
           fs s' = fs s1))"
proof -
  have "case run sample_builtins sample_os (start [''record'', ''--run-name'', ''r1''] [''data'']) of
          (Inr u, s') \<Rightarrow> trace s' = [ParseArgs, Makedirs ''train'', Makedirs ''log'', Makedirs ''train/r1'',
                  Construct Recording 0, Run 1] | _ \<Rightarrow> False"
    by code_simp
  then obtain s' where r: "run sample_builtins sample_os (start [''record'', ''--run-name'', ''r1''] [''data'']) = (Inr (), s')"
    and t: "trace s' = [ParseArgs, Makedirs ''train'', Makedirs ''log'', Makedirs ''train/r1'',
                  Construct Recording 0, Run 1]"
    by (auto split: prod.splits sum.splits)
  from directories_exist_before_run [OF sample_os_creates_and_keeps r] r t
    sample_os_creates_and_keeps
  show ?thesis by blast
qed

lemma file_os_creates_and_keeps: "creates_and_keeps file_os"
  by (auto simp: creates_and_keeps_def file_os_def)

text \<open>
  C5 (\<^verbatim>\<open>run()\<close> is never invoked before all four directories exist), with the command
  line \<^verbatim>\<open>train\<close> where a regular file named \<^verbatim>\<open>data\<close> is in the way: line 154 asks
  \<^verbatim>\<open>os.path.exists\<close>, which is true of the file, so \<^verbatim>\<open>makedirs\<close> is not called for
  \<^verbatim>\<open>data\<close> and nothing is raised; the three other directories are created, the
  executor is constructed and its \<^verbatim>\<open>run()\<close> is called, and \<^verbatim>\<open>data\<close> is still not a
  directory.
\<close>

theorem run_with_a_file_in_place_of_a_directory:
  "(let r = run sample_builtins file_os
              (start [''train''] \<lparr>regular_files = [''data''], directories = []\<rparr>)
    in fst r = Inr () \<and>
       trace (snd r) =
         [ParseArgs, Makedirs ''train'', Makedirs ''log'', Makedirs ''train/noname'',
          Construct Training 0, Run 1] \<and>
       fs (snd r) =
         \<lparr>regular_files = [''data''], directories = [''train'', ''log'', ''train/noname'']\<rparr> \<and>
       path_exists file_os (fs (snd r)) ''data'' \<and>
       \<not> isdir (fs (snd r)) ''data'')"
  by code_simp

subsection \<open>Dispatch\<close>

lemma command_executor_returns:
  assumes "executor_cache s = None" and "command_executor b s = (Inr x, s1)"
  shows "executor_cache s1 = Some x" and "parsed_cache s1 = Some (conf x)"
proof -
  obtain r0 s0 where p: "parsed b s = (r0, s0)" by (cases "parsed b s")
  from assms p obtain c where r0: "r0 = Inr c"
    by (cases r0) (auto simp: command_executor_def command_executor_body_def)
  with p have c: "parsed_cache s0 = Some c" by (simp add: parsed_returns)
  from assms p r0 c show "executor_cache s1 = Some x" and "parsed_cache s1 = Some (conf x)"
    by (auto simp: command_executor_def command_executor_body_def parsed_cached
        split: sum.splits option.splits)
qed

lemma filter_makedirs:
  "filter (\<lambda>e. case e of Construct k n \<Rightarrow> True | _ \<Rightarrow> False) (map Makedirs ps) = []"
  by (induction ps) auto

text \<open>
  C10: a read of \<^verbatim>\<open>command_executor\<close> that returns leaves the executor in the
  instance, built on the cached configuration object, and every later read returns that
  same executor without touching the process state. In a successful \<^verbatim>\<open>run\<close> of a fresh
  process the configuration \<^verbatim>\<open>_ensure_directories\<close> read first is the one the executor
  was constructed with and the one still cached, and exactly one executor was constructed.
\<close>

theorem executor_is_memoized:
  "(executor_cache s = None \<longrightarrow> command_executor b s = (Inr x, s1) \<longrightarrow>
      executor_cache s1 = Some x \<and> parsed_cache s1 = Some (conf x) \<and>
      command_executor b' (s1\<lparr>argv := args'\<rparr>) = (Inr x, s1\<lparr>argv := args'\<rparr>)) \<and>
   (run b os (start args f) = (Inr (), s') \<longrightarrow>
      (\<exists>c s0 y. parsed b (start args f) = (Inr c, s0) \<and>
         parsed_cache s' = Some c \<and> executor_cache s' = Some y \<and> conf y = c \<and>
         filter (\<lambda>e. case e of Construct k n \<Rightarrow> True | _ \<Rightarrow> False) (trace s') =
           [Construct (cls y) (oid c)]))"
proof (intro conjI impI)
  assume a: "executor_cache s = None" "command_executor b s = (Inr x, s1)"
  from command_executor_returns [OF a]
  show "executor_cache s1 = Some x" and "parsed_cache s1 = Some (conf x)" .
  from \<open>executor_cache s1 = Some x\<close>
  show "command_executor b' (s1\<lparr>argv := args'\<rparr>) = (Inr x, s1\<lparr>argv := args'\<rparr>)"
    by (simp add: command_executor_cached)
next
  assume run: "run b os (start args f) = (Inr (), s')"
  let ?s = "start args f"
  have fresh: "parsed_cache ?s = None" "executor_cache ?s = None" "trace ?s = []"
    by (simp_all add: start_def)
  obtain r s1 where e: "ensure_directories b os ?s = (r, s1)"
    by (cases "ensure_directories b os ?s")
  with run have r: "r = Inr ()" by (cases r) (auto simp: run_def)
  from ensure_directories_cases [OF e] r
  obtain c s0 ds where p: "parsed b ?s = (Inr c, s0)"
    and ee: "ensure_each os ds s0 = (Inr (), s1)"
    by auto
  from parsed_fresh_returns(1) [OF fresh(1) p] fresh
  have s0: "trace s0 = [ParseArgs]" "parsed_cache s0 = Some c" "executor_cache s0 = None"
    by simp_all
  from ensure_each_frame [OF ee] s0
  have c: "parsed_cache s1 = Some c" "executor_cache s1 = None" by simp_all
  from ensure_each_trace [OF ee] s0 obtain ps where t: "trace s1 = ParseArgs # map Makedirs ps"
    by auto
  from run e r c command_executor_fresh [OF c, of b]
  have "\<exists>cl. parsed_cache s' = Some c \<and>
          executor_cache s' = Some \<lparr>eid = next_id s1, cls = cl, conf = c\<rparr> \<and>
          trace s' = trace s1 @ [Construct cl (oid c), Run (next_id s1)]"
    by (auto simp: run_def split: sum.splits option.splits)
  then obtain cl where s': "parsed_cache s' = Some c"
      "executor_cache s' = Some \<lparr>eid = next_id s1, cls = cl, conf = c\<rparr>"
      "trace s' = trace s1 @ [Construct cl (oid c), Run (next_id s1)]"
    by blast
  define y where "y = \<lparr>eid = next_id s1, cls = cl, conf = c\<rparr>"
  from s' t have "parsed_cache s' = Some c \<and> executor_cache s' = Some y \<and> conf y = c \<and>
         filter (\<lambda>e. case e of Construct k n \<Rightarrow> True | _ \<Rightarrow> False) (trace s') =
           [Construct (cls y) (oid c)]"
    by (simp add: y_def filter_makedirs)
  with p show "\<exists>c s0 y. parsed b ?s = (Inr c, s0) \<and>
         parsed_cache s' = Some c \<and> executor_cache s' = Some y \<and> conf y = c \<and>
         filter (\<lambda>e. case e of Construct k n \<Rightarrow> True | _ \<Rightarrow> False) (trace s') =
           [Construct (cls y) (oid c)]"
    by blast
qed

theorem executor_is_memoized_witness:
  "\<exists>x s1 s'. executor_cache (start [''search'', ''--ui''] ([]::string list)) = None \<and>
      command_executor sample_builtins (start [''search'', ''--ui''] ([]::string list)) = (Inr x, s1) \<and>
      cls x = LanguageModelParameterSearch \<and>
      executor_cache s1 = Some x \<and> parsed_cache s1 = Some (conf x) \<and>
      command_executor sample_builtins (s1\<lparr>argv := [''train'']\<rparr>) = (Inr x, s1\<lparr>argv := [''train'']\<rparr>) \<and>
      run sample_builtins sample_os (start [''search'', ''--ui''] []) = (Inr (), s') \<and>
      (\<exists>c s0 y. parsed sample_builtins (start [''search'', ''--ui''] ([]::string list)) = (Inr c, s0) \<and>
         parsed_cache s' = Some c \<and> executor_cache s' = Some y \<and> conf y = c \<and>
         filter (\<lambda>e. case e of Construct k n \<Rightarrow> True | _ \<Rightarrow> False) (trace s') =
           [Construct (cls y) (oid c)])"
proof -
  let ?s = "start [''search'', ''--ui''] ([]::string list)"
  have "case command_executor sample_builtins ?s of
          (Inr x, s1) \<Rightarrow> cls x = LanguageModelParameterSearch | _ \<Rightarrow> False"
    by code_simp
  then obtain x s1 where x: "command_executor sample_builtins ?s = (Inr x, s1)"
    "cls x = LanguageModelParameterSearch"
    by (auto split: prod.splits sum.splits)
  have "case run sample_builtins sample_os ?s of (Inr u, s') \<Rightarrow> True | _ \<Rightarrow> False"
    by code_simp
  then obtain s' where r: "run sample_builtins sample_os ?s = (Inr (), s')"
    by (auto split: prod.splits sum.splits)
  have n: "executor_cache ?s = None" by (simp add: start_def)
  note m = executor_is_memoized [of ?s sample_builtins x s1 sample_builtins "[''train'']"
      sample_os "[''search'', ''--ui'']" "[]" s']
  from m n x(1) have a: "executor_cache s1 = Some x \<and> parsed_cache s1 = Some (conf x) \<and>
      command_executor sample_builtins (s1\<lparr>argv := [''train'']\<rparr>) = (Inr x, s1\<lparr>argv := [''train'']\<rparr>)"
    by blast
  from m r have b: "\<exists>c s0 y. parsed sample_builtins ?s = (Inr c, s0) \<and>
         parsed_cache s' = Some c \<and> executor_cache s' = Some y \<and> conf y = c \<and>
         filter (\<lambda>e. case e of Construct k n \<Rightarrow> True | _ \<Rightarrow> False) (trace s') =
           [Construct (cls y) (oid c)]"
    by blast
  from a have a1: "executor_cache s1 = Some x" and a2: "parsed_cache s1 = Some (conf x)"
    and a3: "command_executor sample_builtins (s1\<lparr>argv := [''train'']\<rparr>) =
               (Inr x, s1\<lparr>argv := [''train'']\<rparr>)"
    by simp_all
  show ?thesis
    by (rule exI [of _ x], rule exI [of _ s1], rule exI [of _ s'], intro conjI)
       (rule n x a1 a2 a3 r b)+
qed

subsection \<open>Aborting before any directory\<close>

lemma run_parse_fails:
  assumes "parse_args b args = Inl e"
  shows "run b os (start args f) = (Inl e, (start args f)\<lparr>trace := [ParseArgs]\<rparr>)"
  using assms
  by (simp add: run_def ensure_directories_def directory_names_def parsed_def parsed_body_def
      start_def)

lemma parse_args_no_command: "parse_args b [] = Inr [(''command'', PyNone)]"
  by code_simp

lemma run_no_command:
  "run b os (start [] f) =
     (Inl (AttributeError ''train_dir''), (start [] f)\<lparr>next_id := 1, trace := [ParseArgs]\<rparr>)"
proof -
  have r: "set_run_type [(''command'', PyNone)] =
      Inr [(''command'', PyNone), (''run_type'', PyStr ''other'')]" by code_simp
  have d: "set_run_train_dir [(''command'', PyNone), (''run_type'', PyStr ''other'')] =
      Inl (AttributeError ''train_dir'')" by code_simp
  show ?thesis
    by (simp add: run_def ensure_directories_def directory_names_def parsed_def parsed_body_def
        start_def parse_args_no_command r d)
qed

lemma registry_keys:
  "map_of command_registry (PyStr c) = None \<longleftrightarrow> map_of subparsers c = None"
  by (simp add: command_registry_def subparsers_def)

lemma init_main: "init_namespace main_parser = [(''command'', PyNone)]"
  by code_simp

lemma parse_args_invalid_choice:
  assumes "c = [] \<or> hd c \<noteq> CHR ''-''" and "map_of subparsers c = None"
  shows "parse_args b (c # rest) = Inl (ArgparseError (InvalidChoice c))"
proof -
  from assms(1) have "c \<noteq> ''--''" by auto
  moreover from assms(1) have "parse_optional b main_parser c = Positional"
    by (auto simp: parse_optional_def)
  ultimately show ?thesis using assms(2)
    by (simp add: parse_args_def subparsers_action_def)
qed

text \<open>
  C6, as the code has it: when no command is given, or when the first token is not an
  option and names no entry of the command registry, \<^verbatim>\<open>run\<close> of a fresh process
  aborts before any \<^verbatim>\<open>makedirs\<close> call: the file system is as it was, the only event is
  the call of \<^verbatim>\<open>parse_args\<close>, and no executor exists. For a token that is no registered
  command the error is argparse's own (invalid choice, exit status 2), raised while
  parsing: the registry is never consulted.
\<close>

theorem unregistered_command_aborts_before_directories:
  assumes "args = [] \<or>
           (\<exists>c rest. args = c # rest \<and> (c = [] \<or> hd c \<noteq> CHR ''-'') \<and>
              map_of command_registry (PyStr c) = None)"
  shows "\<exists>e s'. run b os (start args f) = (Inl e, s') \<and>
           fs s' = f \<and> trace s' = [ParseArgs] \<and> executor_cache s' = None \<and>
           (\<forall>c rest. args = c # rest \<longrightarrow> e = ArgparseError (InvalidChoice c))"
  using assms
proof
  assume "args = []"
  with run_no_command [of b os f] show ?thesis by (simp add: start_def)
next
  assume "\<exists>c rest. args = c # rest \<and> (c = [] \<or> hd c \<noteq> CHR ''-'') \<and>
              map_of command_registry (PyStr c) = None"
  then obtain c rest where a: "args = c # rest" "c = [] \<or> hd c \<noteq> CHR ''-''"
    "map_of subparsers c = None"
    by (auto simp: registry_keys)
  from parse_args_invalid_choice [OF a(2,3)] a(1)
  have "parse_args b args = Inl (ArgparseError (InvalidChoice c))" by simp
  from run_parse_fails [OF this, of os f] a(1) show ?thesis by (simp add: start_def)
qed

theorem unregistered_command_aborts_before_directories_witness:
  "map_of command_registry (PyStr ''bogus'') = None \<and>
   (\<exists>e s'. run sample_builtins sample_os (start [''bogus'', ''--mfcc''] [''x'']) = (Inl e, s') \<and>
           fs s' = [''x''] \<and> trace s' = [ParseArgs] \<and> executor_cache s' = None \<and>
           e = ArgparseError (InvalidChoice ''bogus'')) \<and>
   (\<exists>e s'. run sample_builtins sample_os (start [] [''x'']) = (Inl e, s') \<and>
           fs s' = [''x''] \<and> trace s' = [ParseArgs] \<and> executor_cache s' = None)"
proof -
  have k: "map_of command_registry (PyStr ''bogus'') = None" by (simp add: command_registry_def)
  then have "[''bogus'', ''--mfcc''] = [] \<or>
           (\<exists>c rest. [''bogus'', ''--mfcc''] = c # rest \<and> (c = [] \<or> hd c \<noteq> CHR ''-'') \<and>
              map_of command_registry (PyStr c) = None)"
    by simp
  from unregistered_command_aborts_before_directories [OF this, of sample_builtins sample_os "[''x'']"]
    unregistered_command_aborts_before_directories [of "[]" sample_builtins sample_os "[''x'']"] k
  show ?thesis by auto
qed

theorem unregistered_command_is_rejected_by_the_parser:
  "run sample_builtins sample_os (start [''bogus''] []) =
     (Inl (ArgparseError (InvalidChoice ''bogus'')), (start [''bogus''] [])\<lparr>trace := [ParseArgs]\<rparr>) \<and>
   ArgparseError (InvalidChoice ''bogus'') \<noteq> KeyError (PyStr ''bogus'') \<and>
   fst (run sample_builtins sample_os (start [] [])) = Inl (AttributeError ''train_dir'')"
  by code_simp

subsection \<open>Values the options cannot convert\<close>






subsection \<open>The command registry\<close>

text \<open>
  C9 (every value of \<^verbatim>\<open>command\<close> that passes validation maps to one executor class),
  at the command line with no sub-command: argparse accepts it with
  \<^verbatim>\<open>command = None\<close>, the registry has no entry for \<^verbatim>\<open>None\<close>, and reading
  \<^verbatim>\<open>command_executor\<close> raises (already in \<^verbatim>\<open>parsed\<close>, on \<^verbatim>\<open>train_dir\<close>) and
  constructs nothing.
\<close>

theorem no_command_passes_validation_without_executor:
  "parse_args b [] = Inr [(''command'', PyNone)] \<and>
   map_of command_registry PyNone = None \<and>
   command_executor b (start [] f) =
     (Inl (AttributeError ''train_dir''), (start [] f)\<lparr>next_id := 1, trace := [ParseArgs]\<rparr>)"
proof -
  have r: "set_run_type [(''command'', PyNone)] =
      Inr [(''command'', PyNone), (''run_type'', PyStr ''other'')]" by code_simp
  have d: "set_run_train_dir [(''command'', PyNone), (''run_type'', PyStr ''other'')] =
      Inl (AttributeError ''train_dir'')" by code_simp
  show ?thesis
    by (simp add: command_executor_def command_executor_body_def parsed_def parsed_body_def
        start_def parse_args_no_command r d command_registry_def)
qed

subsection \<open>What parsing does to one attribute\<close>

lemma take_action_returns:
  "take_action b a s arg ns = Inr ns' \<Longrightarrow>
     ns' = ns \<or> (\<exists>d v. dest a = Some d \<and> ns' = setattr ns d v)"
  by (auto simp: store_def split: action.splits option.splits)

lemma flag_with_explicit_arg_returns:
  "flag_with_explicit_arg b a s sep e ns = Inr ns' \<Longrightarrow> take_action b a s None ns = Inr ns'"
  by (auto simp: flag_with_explicit_arg_def split: if_splits list.splits)

declare take_action.simps [simp del]

lemma setattr_other: "k \<noteq> d \<Longrightarrow> map_of (setattr ns d v) k = map_of ns k"
  by (simp add: setattr_def update_conv')

lemma setattr_distinct: "distinct (map fst ns) \<Longrightarrow> distinct (map fst (setattr ns d v))"
  by (simp add: setattr_def distinct_update)

lemma take_action_keeps:
  assumes "take_action b a s arg ns = Inr ns'" and "dest a \<noteq> Some k"
  shows "map_of ns' k = map_of ns k"
  using take_action_returns [OF assms(1)] assms(2) by (auto simp: setattr_other)

lemma take_action_distinct:
  assumes "take_action b a s arg ns = Inr ns'" and "distinct (map fst ns)"
  shows "distinct (map fst ns')"
  using take_action_returns [OF assms(1)] assms(2) by (auto simp: setattr_distinct)

text \<open>An invariant of the namespace that every action taken preserves holds of the
  namespace \<open>consume\<close> returns.\<close>

lemma consume_invariant:
  assumes "consume b is ns ex = Inr (ns', ex')" and "I ns"
    and "\<And>t a s sep e arg n n'. Opt t (Some a) s sep e \<in> set is \<Longrightarrow> I n \<Longrightarrow>
           take_action b a s arg n = Inr n' \<Longrightarrow> I n'"
  shows "I ns'"
  using assms
proof (induction b "is" ns ex rule: consume.induct)
  case (5 b t a s sep e "is" ns ex)
  then obtain ns1 where
    t: "(case act a of Store c \<Rightarrow> take_action b a s (Some e) ns
          | _ \<Rightarrow> flag_with_explicit_arg b a s sep e ns) = Inr ns1"
    and c: "consume b is ns1 ex = Inr (ns', ex')"
    by (auto split: sum.splits)
  from t have "\<exists>arg. take_action b a s arg ns = Inr ns1"
    by (cases "act a") (auto dest: flag_with_explicit_arg_returns)
  with "5.prems"(2,3) have "I ns1" by (meson list.set_intros(1))
  with "5.IH" [OF t c] "5.prems"(3) show ?case by (meson list.set_intros(2))
next
  case (6 b t a s sep "is" ns ex)
  have step: "I n'" if "I n" "take_action b a s arg n = Inr n'" for arg n n'
    using "6.prems"(3) that by (meson list.set_intros(1))
  have rest: "\<And>t a s sep e arg n n'. Opt t (Some a) s sep e \<in> set is \<Longrightarrow> I n \<Longrightarrow>
           take_action b a s arg n = Inr n' \<Longrightarrow> I n'"
    using "6.prems"(3) by (meson list.set_intros(2))
  show ?case
  proof (cases "act a")
    case (Store c)
    with "6.prems"(1) obtain v is' ns1 where i: "is = Arg v # is'"
      and t: "take_action b a s (Some v) ns = Inr ns1"
      and c: "consume b is' ns1 ex = Inr (ns', ex')"
      by (auto split: list.splits item.splits sum.splits)
    from step [OF "6.prems"(2) t] have "I ns1" .
    with "6.IH"(1) [OF Store i refl t c] rest i show ?thesis by (meson list.set_intros(2))
  next
    case (StoreConst x)
    with "6.prems"(1) obtain ns1 where t: "take_action b a s None ns = Inr ns1"
      and c: "consume b is ns1 ex = Inr (ns', ex')"
      by (auto split: sum.splits)
    from "6.IH"(2) [OF StoreConst t c step [OF "6.prems"(2) t]] rest show ?thesis by blast
  next
    case StoreTrue
    with "6.prems"(1) obtain ns1 where t: "take_action b a s None ns = Inr ns1"
      and c: "consume b is ns1 ex = Inr (ns', ex')"
      by (auto split: sum.splits)
    from "6.IH"(3) [OF StoreTrue t c step [OF "6.prems"(2) t]] rest show ?thesis by blast
  next
    case StoreFalse
    with "6.prems"(1) obtain ns1 where t: "take_action b a s None ns = Inr ns1"
      and c: "consume b is ns1 ex = Inr (ns', ex')"
      by (auto split: sum.splits)
    from "6.IH"(4) [OF StoreFalse t c step [OF "6.prems"(2) t]] rest show ?thesis by blast
  next
    case Help
    with "6.prems"(1) obtain ns1 where t: "take_action b a s None ns = Inr ns1"
      and c: "consume b is ns1 ex = Inr (ns', ex')"
      by (auto split: sum.splits)
    from "6.IH"(5) [OF Help t c step [OF "6.prems"(2) t]] rest show ?thesis by blast
  next
    case Parsers
    with "6.prems"(1) obtain ns1 where t: "take_action b a s None ns = Inr ns1"
      and c: "consume b is ns1 ex = Inr (ns', ex')"
      by (auto split: sum.splits)
    from "6.IH"(6) [OF Parsers t c step [OF "6.prems"(2) t]] rest show ?thesis by blast
  qed
qed auto

lemma consume_keeps:
  assumes "consume b is ns ex = Inr (ns', ex')"
    and "\<And>t a s sep e. Opt t (Some a) s sep e \<in> set is \<Longrightarrow> dest a \<noteq> Some k"
  shows "map_of ns' k = map_of ns k"
  using assms(1)
  by (rule consume_invariant [where I = "\<lambda>n. map_of n k = map_of ns k"])
     (auto dest: take_action_keeps assms(2))

lemma consume_distinct:
  assumes "consume b is ns ex = Inr (ns', ex')" and "distinct (map fst ns)"
  shows "distinct (map fst ns')"
  using assms
  by (rule consume_invariant [where I = "\<lambda>n. distinct (map fst n)"])
     (auto dest: take_action_distinct)

lemma classify_options:
  "classify b p ts = Inr is \<Longrightarrow> Opt t a s sep e \<in> set is \<Longrightarrow>
     t \<in> set ts \<and> parse_optional b p t = Option a s sep e"
proof (induction ts arbitrary: "is")
  case Nil
  then show ?case by simp
next
  case (Cons u us)
  show ?case
  proof (cases "u = ''--''")
    case True
    with Cons.prems show ?thesis by auto
  next
    case False
    with Cons.prems Cons.IH show ?thesis
      by (auto split: optional.splits sum.splits)
  qed
qed

text \<open>Copying the attributes of the sub-command's namespace over.\<close>

lemma copy_attrs:
  "map_of (foldl (\<lambda>n (k, v). setattr n k v) m kvs) k =
     (case map_of (rev kvs) k of Some v \<Rightarrow> Some v | None \<Rightarrow> map_of m k)"
  by (induction kvs arbitrary: m rule: rev_induct)
     (auto simp: setattr_def update_conv' split: option.splits)

lemma map_of_rev_distinct:
  "distinct (map fst kvs) \<Longrightarrow> map_of (rev kvs) = map_of kvs"
  by (rule map_of_inject_set [THEN iffD2]) (simp_all add: distinct_rev rev_map [symmetric])

lemma subparser_defaults:
  "list_all (\<lambda>(n, p). distinct (map fst (init_namespace p)) \<and>
      map_of (init_namespace p) ''feature_type'' = Some (PyStr ''power'') \<and>
      n \<noteq> [] \<and> hd n \<noteq> CHR ''-'') subparsers"
  by code_simp


lemma subparser_facts:
  assumes "map_of subparsers cmd = Some p"
  shows "distinct (map fst (init_namespace p))"
    and "map_of (init_namespace p) ''feature_type'' = Some (PyStr ''power'')"
    and "cmd \<noteq> ''--''" and "parse_optional b main_parser cmd = Positional"
proof -
  from assms have "(cmd, p) \<in> set subparsers" by (rule map_of_SomeD)
  with subparser_defaults
  have f: "distinct (map fst (init_namespace p)) \<and>
      map_of (init_namespace p) ''feature_type'' = Some (PyStr ''power'') \<and>
      cmd \<noteq> [] \<and> hd cmd \<noteq> CHR ''-''"
    by (auto simp: list_all_iff)
  then show "distinct (map fst (init_namespace p))"
    and "map_of (init_namespace p) ''feature_type'' = Some (PyStr ''power'')" by simp_all
  from f show "cmd \<noteq> ''--''" by auto
  from f show "parse_optional b main_parser cmd = Positional" by (simp add: parse_optional_def)
qed

lemma parse_args_subcommand:
  assumes "map_of subparsers cmd = Some p" and "parse_args b (cmd # rest) = Inr ns"
  shows "\<exists>sub. parse_known_args b p rest = Inr (sub, []) \<and>
           ns = foldl (\<lambda>n (k, v). setattr n k v)
                  (setattr (init_namespace main_parser) ''command'' (PyStr cmd)) sub"
  using assms subparser_facts(3,4) [OF assms(1)]
  by (auto simp: parse_args_def subparsers_action_def split: sum.splits prod.splits if_splits)

lemma parse_known_args_keeps:
  assumes "parse_known_args b p rest = Inr (sub, ex)" and "\<forall>t\<in>set rest. \<not> sets_dest b p k t"
  shows "map_of sub k = map_of (init_namespace p) k"
proof -
  from assms(1) obtain "is" where c: "classify b p rest = Inr is"
    and r: "consume b is (init_namespace p) [] = Inr (sub, ex)"
    by (auto simp: parse_known_args_def split: sum.splits)
  show ?thesis
  proof (rule consume_keeps [OF r])
    fix t a s sep e assume "Opt t (Some a) s sep e \<in> set is"
    from classify_options [OF c this] assms(2) show "dest a \<noteq> Some k"
      by (auto simp: sets_dest_def)
  qed
qed

lemma parse_known_args_distinct:
  assumes "parse_known_args b p rest = Inr (sub, ex)" and "distinct (map fst (init_namespace p))"
  shows "distinct (map fst sub)"
  using assms
  by (auto simp: parse_known_args_def split: sum.splits dest: consume_distinct)

lemma both_feature_flags:
  "case parse_args b [''train'', ''--mfcc'', ''--power''] of
     Inr ns \<Rightarrow> getattr ns ''feature_type'' = Inr (PyStr ''power'') | _ \<Rightarrow> False"
  "case parse_args b [''train'', ''--power'', ''--mfcc''] of
     Inr ns \<Rightarrow> getattr ns ''feature_type'' = Inr (PyStr ''mfcc'') | _ \<Rightarrow> False"
  "case parse_args b [''evaluate'', ''--mfcc'', ''--power''] of
     Inr ns \<Rightarrow> getattr ns ''feature_type'' = Inr (PyStr ''power'') | _ \<Rightarrow> False"
  "case parse_args b [''evaluate'', ''--power'', ''--mfcc''] of
     Inr ns \<Rightarrow> getattr ns ''feature_type'' = Inr (PyStr ''mfcc'') | _ \<Rightarrow> False"
  "case parse_args b [''record'', ''--mfcc'', ''--power''] of
     Inr ns \<Rightarrow> getattr ns ''feature_type'' = Inr (PyStr ''power'') | _ \<Rightarrow> False"
  "case parse_args b [''record'', ''--power'', ''--mfcc''] of
     Inr ns \<Rightarrow> getattr ns ''feature_type'' = Inr (PyStr ''mfcc'') | _ \<Rightarrow> False"
  "case parse_args b [''search'', ''--mfcc'', ''--power''] of
     Inr ns \<Rightarrow> getattr ns ''feature_type'' = Inr (PyStr ''power'') | _ \<Rightarrow> False"
  "case parse_args b [''search'', ''--power'', ''--mfcc''] of
     Inr ns \<Rightarrow> getattr ns ''feature_type'' = Inr (PyStr ''mfcc'') | _ \<Rightarrow> False"
  by code_simp+

text \<open>
  C8, as the code has it: \<^verbatim>\<open>--mfcc\<close> and \<^verbatim>\<open>--power\<close> are two \<^verbatim>\<open>store_const\<close> options
  with the same \<^verbatim>\<open>dest\<close> and no mutually exclusive group: for each of the four commands a
  command line with both is accepted and the later one gives \<^verbatim>\<open>feature_type\<close>. And for
  each command, when the parser accepts a command line none of whose tokens after the
  command is (an abbreviation of) one of the two options, \<^verbatim>\<open>feature_type\<close> is
  \<^verbatim>\<open>power\<close>.
\<close>

theorem feature_type_last_wins_default_power:
  "(map_of subparsers cmd = Some p \<longrightarrow>
      (\<exists>ns1 ns2.
         parse_args b [cmd, ''--mfcc'', ''--power''] = Inr ns1 \<and>
         getattr ns1 ''feature_type'' = Inr (PyStr ''power'') \<and>
         parse_args b [cmd, ''--power'', ''--mfcc''] = Inr ns2 \<and>
         getattr ns2 ''feature_type'' = Inr (PyStr ''mfcc''))) \<and>
   (map_of subparsers cmd = Some p \<longrightarrow> parse_args b (cmd # rest) = Inr ns \<longrightarrow>
    (\<forall>t\<in>set rest. \<not> sets_dest b p ''feature_type'' t) \<longrightarrow>
      getattr ns ''feature_type'' = Inr (PyStr ''power''))"
proof (intro conjI impI)
  assume "map_of subparsers cmd = Some p"
  then have "cmd \<in> fst ` set subparsers" by (metis map_of_SomeD fst_conv image_eqI)
  then consider "cmd = ''train''" | "cmd = ''evaluate''" | "cmd = ''record''" | "cmd = ''search''"
    by (auto simp: subparsers_def)
  then show "\<exists>ns1 ns2.
         parse_args b [cmd, ''--mfcc'', ''--power''] = Inr ns1 \<and>
         getattr ns1 ''feature_type'' = Inr (PyStr ''power'') \<and>
         parse_args b [cmd, ''--power'', ''--mfcc''] = Inr ns2 \<and>
         getattr ns2 ''feature_type'' = Inr (PyStr ''mfcc'')"
    using both_feature_flags [of b] by cases (auto split: sum.splits)
next
  assume sp: "map_of subparsers cmd = Some p" and pa: "parse_args b (cmd # rest) = Inr ns"
    and no: "\<forall>t\<in>set rest. \<not> sets_dest b p ''feature_type'' t"
  from parse_args_subcommand [OF sp pa] obtain sub
    where k: "parse_known_args b p rest = Inr (sub, [])"
      and ns: "ns = foldl (\<lambda>n (k, v). setattr n k v)
                  (setattr (init_namespace main_parser) ''command'' (PyStr cmd)) sub"
    by blast
  from parse_known_args_keeps [OF k no] subparser_facts(2) [OF sp]
  have "map_of sub ''feature_type'' = Some (PyStr ''power'')" by simp
  moreover from parse_known_args_distinct [OF k subparser_facts(1) [OF sp]]
  have "map_of (rev sub) = map_of sub" by (rule map_of_rev_distinct)
  ultimately have "map_of ns ''feature_type'' = Some (PyStr ''power'')"
    by (simp add: ns copy_attrs)
  then show "getattr ns ''feature_type'' = Inr (PyStr ''power'')" by (simp add: getattr_def)
qed

theorem feature_type_last_wins_default_power_witness:
  "map_of subparsers ''evaluate'' = Some evaluation_parser \<and>
   \<not> sets_dest sample_builtins evaluation_parser ''feature_type'' ''--dev'' \<and>
   \<not> sets_dest sample_builtins evaluation_parser ''feature_type'' ''--batch=32'' \<and>
   (\<exists>ns. parse_args sample_builtins [''evaluate'', ''--dev'', ''--batch=32''] = Inr ns \<and>
      getattr ns ''batch_size'' = Inr (PyInt 32) \<and>
      getattr ns ''feature_type'' = Inr (PyStr ''power'')) \<and>
   (\<exists>ns1 ns2.
      parse_args sample_builtins [''evaluate'', ''--mfcc'', ''--power''] = Inr ns1 \<and>
      getattr ns1 ''feature_type'' = Inr (PyStr ''power'') \<and>
      parse_args sample_builtins [''evaluate'', ''--power'', ''--mfcc''] = Inr ns2 \<and>
      getattr ns2 ''feature_type'' = Inr (PyStr ''mfcc''))"
proof -
  have sp: "map_of subparsers ''evaluate'' = Some evaluation_parser" by (simp add: subparsers_def)
  have "list_all (\<lambda>t. \<not> sets_dest sample_builtins evaluation_parser ''feature_type'' t) [''--dev'', ''--batch=32'']"
    by code_simp
  then have no: "\<forall>t\<in>set [''--dev'', ''--batch=32'']. \<not> sets_dest sample_builtins evaluation_parser ''feature_type'' t"
    by (simp only: list_all_iff)
  have "case parse_args sample_builtins [''evaluate'', ''--dev'', ''--batch=32''] of
          Inr ns \<Rightarrow> getattr ns ''batch_size'' = Inr (PyInt 32) | _ \<Rightarrow> False"
    by code_simp
  then obtain ns where pa: "parse_args sample_builtins [''evaluate'', ''--dev'', ''--batch=32''] = Inr ns"
    and bs: "getattr ns ''batch_size'' = Inr (PyInt 32)"
    by (auto split: sum.splits)
  note t = feature_type_last_wins_default_power [of "''evaluate''" evaluation_parser
      sample_builtins "[''--dev'', ''--batch=32'']" ns]
  from t sp pa no have "getattr ns ''feature_type'' = Inr (PyStr ''power'')" by blast
  moreover from t sp have "\<exists>ns1 ns2.
      parse_args sample_builtins [''evaluate'', ''--mfcc'', ''--power''] = Inr ns1 \<and>
      getattr ns1 ''feature_type'' = Inr (PyStr ''power'') \<and>
      parse_args sample_builtins [''evaluate'', ''--power'', ''--mfcc''] = Inr ns2 \<and>
      getattr ns2 ''feature_type'' = Inr (PyStr ''mfcc'')" by blast
  ultimately show ?thesis using sp no pa bs by auto
qed

theorem mfcc_and_power_are_accepted_together:
  "parse_args sample_builtins [''train'', ''--mfcc'', ''--power''] =
     Inr [(''command'', PyStr ''train''), (''feature_type'', PyStr ''power''),
          (''batch_size'', PyInt 64), (''run_name'', PyStr ''noname''),
          (''data_dir'', PyStr ''data''), (''train_dir'', PyStr ''train''),
          (''log_dir'', PyStr ''log''), (''learning_rate'', PyFloat ''1e-3''),
          (''reset_learning_rate'', PyBool False), (''learning_rate_decay_factor'', PyInt 0),
          (''momentum'', PyFloat ''0.9''), (''max_gradient_norm'', PyFloat ''5.0''),
          (''limit_training_set'', PyInt 0), (''steps_per_checkpoint'', PyInt 1000)]"
  by code_simp

subsection \<open>The command of an accepted command line\<close>

lemma take_action_help: "act a = Help \<Longrightarrow> take_action b a s arg ns = Inl HelpExit"
  by (simp add: take_action.simps)

lemma flag_with_explicit_arg_help:
  "act a = Help \<Longrightarrow> flag_with_explicit_arg b a s sep e ns \<noteq> Inr ns'"
  by (auto simp: flag_with_explicit_arg_def take_action_help split: list.splits)

lemma parse_optional_action:
  assumes "parse_optional b p t = Option (Some a) s sep e"
  shows "a \<in> snd ` set (option_string_actions p)"
proof -
  have m: "a \<in> snd ` set (option_string_actions p)"
    if "map_of (option_string_actions p) u = Some a" for u
    using map_of_SomeD [OF that] by force
  have g: "a \<in> snd ` set (option_string_actions p)"
    if "get_option_tuples p t = [(a, x)]" for x
  proof -
    from that have "(a, x) \<in> set (get_option_tuples p t)" by simp
    then show ?thesis
      by (force simp: get_option_tuples_def split: if_splits prod.splits)
  qed
  from assms show ?thesis
    by (auto simp: parse_optional_def split: if_splits option.splits prod.splits list.splits
        dest: m g)
qed

lemma main_parser_options: "list_all (\<lambda>(s, a). act a = Help) (option_string_actions main_parser)"
  by code_simp

lemma main_parser_option:
  "parse_optional b main_parser t = Option (Some a) s sep e \<Longrightarrow> act a = Help"
  using parse_optional_action [of b main_parser t a s sep e] main_parser_options
  by (auto simp: list_all_iff)

lemma main_consume_extras:
  "main_consume b args ns ex = Inr (ns', ex') \<Longrightarrow> \<exists>more. ex' = ex @ more"
proof (induction b args ns ex rule: main_consume.induct)
  case (2 b t ts ns ex)
  show ?case
  proof (cases "t = ''--''")
    case True
    with "2.prems" show ?thesis by (auto split: if_splits sum.splits)
  next
    case False
    show ?thesis
    proof (cases "parse_optional b main_parser t")
      case Positional
      with False "2.prems" show ?thesis by (auto split: sum.splits)
    next
      case (Ambiguous ms)
      with False "2.prems" show ?thesis by simp
    next
      case (Option a s sep e)
      show ?thesis
      proof (cases a)
        case None
        with False Option "2.prems" have "main_consume b ts ns (ex @ [t]) = Inr (ns', ex')" by simp
        moreover from False have "\<not> (t = ''--'' \<and> ts = [])" by simp
        ultimately have "\<exists>more. ex' = (ex @ [t]) @ more"
          using False Option None by (intro "2.IH"(1))
        then show ?thesis by auto
      next
        case (Some act)
        with Option have "Spec2Isabelle.act act = Help" by (auto dest: main_parser_option)
        with False Option Some "2.prems" show ?thesis
          by (cases e) (auto simp: take_action_help flag_with_explicit_arg_help split: sum.splits)
      qed
    qed
  qed
qed auto


lemma main_consume_returns:
  assumes "main_consume b args ns [] = Inr (ns', [])"
  shows "(args = [] \<and> ns' = ns) \<or>
         (\<exists>cmd rest. args = cmd # rest \<and> subparsers_action b ns cmd rest = Inr (ns', []))"
proof (cases args)
  case Nil
  with assms show ?thesis by simp
next
  case (Cons t ts)
  show ?thesis
  proof (cases "t = ''--''")
    case True
    with assms Cons show ?thesis by (auto split: if_splits sum.splits)
  next
    case False
    show ?thesis
    proof (cases "parse_optional b main_parser t")
      case Positional
      with False assms Cons show ?thesis by (auto split: sum.splits)
    next
      case (Ambiguous ms)
      with False assms Cons show ?thesis by simp
    next
      case (Option a s sep e)
      show ?thesis
      proof (cases a)
        case None
        with False Option assms Cons have "main_consume b ts ns [t] = Inr (ns', [])" by simp
        from main_consume_extras [OF this] show ?thesis by simp
      next
        case (Some act)
        with Option have "Spec2Isabelle.act act = Help" by (auto dest: main_parser_option)
        with False Option Some assms Cons show ?thesis
          by (cases e) (auto simp: take_action_help flag_with_explicit_arg_help split: sum.splits)
      qed
    qed
  qed
qed

lemma subparser_dests:
  "list_all (\<lambda>(n, p).
      ''command'' \<notin> fst ` set (init_namespace p) \<and>
      list_all (\<lambda>(s, a). dest a \<noteq> Some ''command'') (option_string_actions p)) subparsers"
  by code_simp

lemma setattr_keys: "fst ` set (setattr ns d v) = insert d (fst ` set ns)"
  by (simp add: setattr_def dom_update)

lemma parse_known_args_no_command:
  assumes "map_of subparsers cmd = Some p" and "parse_known_args b p rest = Inr (sub, ex)"
  shows "''command'' \<notin> fst ` set sub"
proof -
  from assms(1) have "(cmd, p) \<in> set subparsers" by (rule map_of_SomeD)
  with subparser_dests
  have i: "''command'' \<notin> fst ` set (init_namespace p)"
    and d: "\<forall>(s, a)\<in>set (option_string_actions p). dest a \<noteq> Some ''command''"
    by (auto simp: list_all_iff)
  from assms(2) obtain "is" where c: "classify b p rest = Inr is"
    and r: "consume b is (init_namespace p) [] = Inr (sub, ex)"
    by (auto simp: parse_known_args_def split: sum.splits)
  show ?thesis
  proof (rule consume_invariant [OF r, where I = "\<lambda>n. ''command'' \<notin> fst ` set n"])
    show "''command'' \<notin> fst ` set (init_namespace p)" by (rule i)
  next
    fix t a s sep e arg n n'
    assume o: "Opt t (Some a) s sep e \<in> set is" and n: "''command'' \<notin> fst ` set n"
      and t: "take_action b a s arg n = Inr n'"
    from classify_options [OF c o] have "a \<in> snd ` set (option_string_actions p)"
      by (auto dest: parse_optional_action)
    with d have na: "dest a \<noteq> Some ''command''" by auto
    from take_action_returns [OF t] show "''command'' \<notin> fst ` set n'"
    proof (elim disjE exE conjE)
      assume "n' = n"
      with n show ?thesis by simp
    next
      fix k v assume "dest a = Some k" "n' = setattr n k v"
      with na n setattr_keys [of n k v] show ?thesis by simp
    qed
  qed
qed

text \<open>The two ways \<^verbatim>\<open>parse_args\<close> returns: with no argument at all, or with a
  sub-command whose parser accepted the rest.\<close>

lemma parse_args_returns:
  assumes "parse_args b args = Inr ns"
  shows "(args = [] \<and> ns = [(''command'', PyNone)]) \<or>
         (\<exists>cmd rest p. args = cmd # rest \<and> map_of subparsers cmd = Some p \<and>
            getattr ns ''command'' = Inr (PyStr cmd))"
proof -
  from assms have m: "main_consume b args (init_namespace main_parser) [] = Inr (ns, [])"
    by (auto simp: parse_args_def split: sum.splits prod.splits if_splits)
  from main_consume_returns [OF m] show ?thesis
  proof (elim disjE exE conjE)
    assume "args = []" "ns = init_namespace main_parser"
    then show ?thesis by (simp add: init_main)
  next
    fix cmd rest
    assume a: "args = cmd # rest"
      and s: "subparsers_action b (init_namespace main_parser) cmd rest = Inr (ns, [])"
    then obtain p sub where p: "map_of subparsers cmd = Some p"
      and k: "parse_known_args b p rest = Inr (sub, [])"
      and ns: "ns = foldl (\<lambda>n (k, v). setattr n k v)
                  (setattr (init_namespace main_parser) ''command'' (PyStr cmd)) sub"
      by (auto simp: subparsers_action_def split: option.splits sum.splits)
    from parse_known_args_no_command [OF p k] have "''command'' \<notin> fst ` set (rev sub)" by simp
    then have "map_of (rev sub) ''command'' = None" by (simp add: map_of_eq_None_iff)
    then have "map_of ns ''command'' =
        map_of (setattr (init_namespace main_parser) ''command'' (PyStr cmd)) ''command''"
      by (simp add: ns copy_attrs)
    then have "getattr ns ''command'' = Inr (PyStr cmd)"
      by (simp add: getattr_def setattr_def update_conv')
    with a p show ?thesis by blast
  qed
qed

lemma parsed_command:
  assumes "parsed b (start args f) = (Inr c, s')"
  shows "\<exists>cmd ns r d. cmd \<in> fst ` set subparsers \<and> parse_args b args = Inr ns \<and>
           getattr ns ''command'' = Inr (PyStr cmd) \<and>
           set_run_type ns = Inr (setattr ns ''run_type'' r) \<and>
           attrs c = setattr (setattr ns ''run_type'' r) ''run_train_dir'' d"
proof -
  have "parsed_cache (start args f) = None" by (simp add: start_def)
  from parsed_fresh_returns(3) [OF this assms] obtain ns ns1
    where p: "parse_args b args = Inr ns" and r: "set_run_type ns = Inr ns1"
      and d: "set_run_train_dir ns1 = Inr (attrs c)"
    by (auto simp: start_def)
  from r obtain rt where ns1: "ns1 = setattr ns ''run_type'' rt"
    by (auto simp: set_run_type_def split: sum.splits if_splits)
  from set_run_train_dir_returns [OF d] obtain v
    where t: "\<exists>x. getattr ns1 ''train_dir'' = Inr x" and at: "attrs c = setattr ns1 ''run_train_dir'' v"
    by blast
  from t ns1 have td: "\<exists>x. getattr ns ''train_dir'' = Inr x" by (simp add: getattr_setattr)
  from parse_args_returns [OF p] td obtain cmd p' where "map_of subparsers cmd = Some p'"
    "getattr ns ''command'' = Inr (PyStr cmd)"
    by (auto simp: getattr_def)
  moreover from this(1) have "cmd \<in> fst ` set subparsers" by (metis map_of_SomeD fst_conv image_eqI)
  ultimately show ?thesis using p r ns1 at by blast
qed

text \<open>
  The derivation of \<^verbatim>\<open>run_type\<close> on every command line for which \<^verbatim>\<open>parsed\<close> returns:
  the command is one of the four sub-command names, and \<^verbatim>\<open>run_type\<close> is \<^verbatim>\<open>train\<close> for
  \<^verbatim>\<open>train\<close>, the value of \<^verbatim>\<open>dataset\<close> for \<^verbatim>\<open>evaluate\<close>, \<^verbatim>\<open>record\<close> for
  \<^verbatim>\<open>record\<close> and \<^verbatim>\<open>other\<close> for \<^verbatim>\<open>search\<close>.
\<close>

theorem run_type_of_accepted_command:
  assumes "parsed b (start args f) = (Inr c, s')"
  shows "\<exists>cmd. cmd \<in> set [''train'', ''evaluate'', ''record'', ''search''] \<and>
           getattr (attrs c) ''command'' = Inr (PyStr cmd) \<and>
           getattr (attrs c) ''run_type'' =
             (if cmd = ''train'' then Inr (PyStr ''train'')
              else if cmd = ''evaluate'' then getattr (attrs c) ''dataset''
              else if cmd = ''record'' then Inr (PyStr ''record'')
              else Inr (PyStr ''other''))"
proof -
  from parsed_command [OF assms] obtain cmd ns r d
    where cmd: "cmd \<in> fst ` set subparsers" and c: "getattr ns ''command'' = Inr (PyStr cmd)"
      and r: "set_run_type ns = Inr (setattr ns ''run_type'' r)"
      and a: "attrs c = setattr (setattr ns ''run_type'' r) ''run_train_dir'' d"
    by blast
  from cmd have m: "cmd \<in> set [''train'', ''evaluate'', ''record'', ''search'']"
    by (auto simp: subparsers_def)
  from r c have "Inr r =
             (if cmd = ''train'' then Inr (PyStr ''train'')
              else if cmd = ''evaluate'' then getattr ns ''dataset''
              else if cmd = ''record'' then Inr (PyStr ''record'')
              else Inr (PyStr ''other''))"
    by (auto simp: set_run_type_def setattr_def split: if_splits sum.splits dest: update_eqD)
  with c a m show ?thesis
    by (intro exI [of _ cmd]) (simp add: getattr_setattr)
qed

theorem run_type_of_accepted_command_witness:
  "\<exists>c s'. parsed sample_builtins (start [''evaluate'', ''--dev''] ([]::string list)) = (Inr c, s') \<and>
     getattr (attrs c) ''command'' = Inr (PyStr ''evaluate'') \<and>
     getattr (attrs c) ''dataset'' = Inr (PyStr ''dev'') \<and>
     getattr (attrs c) ''run_type'' = Inr (PyStr ''dev'')"
proof -
  have "case parsed sample_builtins (start [''evaluate'', ''--dev''] ([]::string list)) of
          (Inr c, s') \<Rightarrow> getattr (attrs c) ''command'' = Inr (PyStr ''evaluate'') \<and>
                         getattr (attrs c) ''dataset'' = Inr (PyStr ''dev'')
        | _ \<Rightarrow> False"
    by code_simp
  then obtain c s' where p: "parsed sample_builtins (start [''evaluate'', ''--dev''] ([]::string list)) = (Inr c, s')"
    and k: "getattr (attrs c) ''command'' = Inr (PyStr ''evaluate'')"
    and d: "getattr (attrs c) ''dataset'' = Inr (PyStr ''dev'')"
    by (auto split: prod.splits sum.splits)
  from run_type_of_accepted_command [OF p] k d
  have "getattr (attrs c) ''run_type'' = Inr (PyStr ''dev'')" by auto
  with p k d show ?thesis by blast
qed

text \<open>
  On every command line for which \<^verbatim>\<open>parsed\<close> returns, the registry has the entry for
  the command (train to Training, evaluate to Evaluation, record to Recording, search to
  LanguageModelParameterSearch) and the first read of \<^verbatim>\<open>command_executor\<close> returns an
  executor of that class, built on the configuration \<^verbatim>\<open>parsed\<close> returned.
\<close>

theorem accepted_command_has_one_executor:
  assumes "parsed b (start args f) = (Inr c, s')"
  shows "\<exists>cmd k x s''.
           getattr (attrs c) ''command'' = Inr (PyStr cmd) \<and>
           map_of command_registry (PyStr cmd) = Some k \<and>
           k = (if cmd = ''train'' then Training else if cmd = ''evaluate'' then Evaluation
                else if cmd = ''record'' then Recording else LanguageModelParameterSearch) \<and>
           command_executor b s' = (Inr x, s'') \<and> cls x = k \<and> conf x = c"
proof -
  from parsed_command [OF assms] obtain cmd ns r d
    where cmd: "cmd \<in> fst ` set subparsers" and c: "getattr ns ''command'' = Inr (PyStr cmd)"
      and a: "attrs c = setattr (setattr ns ''run_type'' r) ''run_train_dir'' d"
    by blast
  from c a have gc: "getattr (attrs c) ''command'' = Inr (PyStr cmd)" by (simp add: getattr_setattr)
  define k where "k = (if cmd = ''train'' then Training else if cmd = ''evaluate'' then Evaluation
                else if cmd = ''record'' then Recording else LanguageModelParameterSearch)"
  from cmd have reg: "map_of command_registry (PyStr cmd) = Some k"
    by (auto simp: subparsers_def command_registry_def k_def)
  from assms have pc: "parsed_cache s' = Some c" by (rule parsed_returns)
  from parsed_frame [OF assms] have ec: "executor_cache s' = None" by (simp add: start_def)
  from command_executor_fresh [OF pc ec, of b] gc reg
  have "\<exists>x s''. command_executor b s' = (Inr x, s'') \<and> cls x = k \<and> conf x = c" by simp
  with gc reg show ?thesis unfolding k_def by blast
qed

theorem accepted_command_has_one_executor_witness:
  "\<exists>c s' x s''. parsed sample_builtins (start [''record''] ([]::string list)) = (Inr c, s') \<and>
     getattr (attrs c) ''command'' = Inr (PyStr ''record'') \<and>
     map_of command_registry (PyStr ''record'') = Some Recording \<and>
     command_executor sample_builtins s' = (Inr x, s'') \<and> cls x = Recording \<and> conf x = c"
proof -
  have "case parsed sample_builtins (start [''record''] ([]::string list)) of
          (Inr c, s') \<Rightarrow> getattr (attrs c) ''command'' = Inr (PyStr ''record'') | _ \<Rightarrow> False"
    by code_simp
  then obtain c s' where p: "parsed sample_builtins (start [''record''] ([]::string list)) = (Inr c, s')"
    and g: "getattr (attrs c) ''command'' = Inr (PyStr ''record'')"
    by (auto split: prod.splits sum.splits)
  from accepted_command_has_one_executor [OF p] obtain cmd k x s''
    where "getattr (attrs c) ''command'' = Inr (PyStr cmd)"
      and "map_of command_registry (PyStr cmd) = Some k"
      and "k = (if cmd = ''train'' then Training else if cmd = ''evaluate'' then Evaluation
                else if cmd = ''record'' then Recording else LanguageModelParameterSearch)"
      and "command_executor sample_builtins s' = (Inr x, s'')" and "cls x = k" and "conf x = c"
    by blast
  with g have "map_of command_registry (PyStr ''record'') = Some Recording"
    and "command_executor sample_builtins s' = (Inr x, s'')" and "cls x = Recording" and "conf x = c"
    by simp_all
  with p g show ?thesis by blast
qed


subsection \<open>The attributes the module reads are there, and the paths are strings\<close>

lemma subparser_string_options:
  "list_all (\<lambda>(n, p).
      list_all (\<lambda>k. (case map_of (init_namespace p) k of Some (PyStr x) \<Rightarrow> True | _ \<Rightarrow> False) \<and>
          list_all (\<lambda>(s, a). dest a = Some k \<longrightarrow> act a = Store AsStr) (option_string_actions p))
        [''train_dir'', ''run_name'', ''data_dir'', ''log_dir''] \<and>
      (n = ''evaluate'' \<longrightarrow> ''dataset'' \<in> fst ` set (init_namespace p))) subparsers"
  by code_simp

lemma take_action_str:
  assumes "take_action b a s arg ns = Inr ns'" and "dest a = Some k \<longrightarrow> act a = Store AsStr"
    and "str_attr ns k"
  shows "str_attr ns' k"
proof (cases "dest a = Some k")
  case True
  with assms show ?thesis
    by (auto simp: take_action.simps store_def str_attr_def setattr_def update_conv'
        split: option.splits)
next
  case False
  from take_action_keeps [OF assms(1) False] assms(3) show ?thesis by (simp add: str_attr_def)
qed

lemma take_action_keys:
  assumes "take_action b a s arg ns = Inr ns'" and "k \<in> fst ` set ns"
  shows "k \<in> fst ` set ns'"
proof -
  from take_action_returns [OF assms(1)] show ?thesis
  proof (elim disjE exE conjE)
    assume "ns' = ns"
    with assms(2) show ?thesis by simp
  next
    fix d v assume "ns' = setattr ns d v"
    with assms(2) setattr_keys [of ns d v] show ?thesis by simp
  qed
qed

lemma parse_known_args_strings:
  assumes "map_of subparsers cmd = Some p" and "parse_known_args b p rest = Inr (sub, ex)"
    and "k \<in> set [''train_dir'', ''run_name'', ''data_dir'', ''log_dir'']"
  shows "str_attr sub k"
proof -
  from assms(1) have "(cmd, p) \<in> set subparsers" by (rule map_of_SomeD)
  with subparser_string_options assms(3)
  have i: "case map_of (init_namespace p) k of Some (PyStr x) \<Rightarrow> True | _ \<Rightarrow> False"
    and d: "\<forall>(s, a)\<in>set (option_string_actions p). dest a = Some k \<longrightarrow> act a = Store AsStr"
    by (auto simp: list_all_iff)
  from assms(2) obtain "is" where c: "classify b p rest = Inr is"
    and r: "consume b is (init_namespace p) [] = Inr (sub, ex)"
    by (auto simp: parse_known_args_def split: sum.splits)
  show ?thesis
  proof (rule consume_invariant [OF r, where I = "\<lambda>n. str_attr n k"])
    from i show "str_attr (init_namespace p) k"
      by (simp add: str_attr_def)
  next
    fix t a s sep e arg n n'
    assume o: "Opt t (Some a) s sep e \<in> set is" and n: "str_attr n k"
      and t: "take_action b a s arg n = Inr n'"
    from classify_options [OF c o] have "a \<in> snd ` set (option_string_actions p)"
      by (auto dest: parse_optional_action)
    with d have "dest a = Some k \<longrightarrow> act a = Store AsStr" by auto
    from take_action_str [OF t this n] show "str_attr n' k" .
  qed
qed

lemma parse_known_args_dataset:
  assumes "map_of subparsers ''evaluate'' = Some p" and "parse_known_args b p rest = Inr (sub, ex)"
  shows "''dataset'' \<in> fst ` set sub"
proof -
  from assms(1) have "(''evaluate'', p) \<in> set subparsers" by (rule map_of_SomeD)
  with subparser_string_options have i: "''dataset'' \<in> fst ` set (init_namespace p)"
    by (auto simp: list_all_iff)
  from assms(2) obtain "is" where r: "consume b is (init_namespace p) [] = Inr (sub, ex)"
    by (auto simp: parse_known_args_def split: sum.splits)
  show ?thesis
    by (rule consume_invariant [OF r, where I = "\<lambda>n. ''dataset'' \<in> fst ` set n"])
       (auto intro: i take_action_keys)
qed

lemma copied_attr:
  assumes "distinct (map fst sub)" and "map_of sub k = Some v"
  shows "map_of (foldl (\<lambda>n (k, v). setattr n k v) m sub) k = Some v"
  using assms by (simp add: copy_attrs map_of_rev_distinct)

text \<open>
  Whenever \<^verbatim>\<open>parse_args\<close> accepts a command line that has a first token, \<^verbatim>\<open>parsed\<close>
  returns a configuration: every attribute the two assignments read is set, so neither
  an AttributeError nor a TypeError arises, and the four directory attributes hold
  strings.
\<close>

theorem parsed_returns_with_a_command:
  assumes "parse_args b (cmd # rest) = Inr ns"
  shows "\<exists>c s'. parsed b (start (cmd # rest) f) = (Inr c, s') \<and>
           (\<forall>k\<in>set directory_names. \<exists>d. getattr (attrs c) k = Inr (PyStr d))"
proof -
  from parse_args_returns [OF assms] obtain p
    where p: "map_of subparsers cmd = Some p" and gc: "getattr ns ''command'' = Inr (PyStr cmd)"
    by auto
  from parse_args_subcommand [OF p assms] obtain sub
    where k: "parse_known_args b p rest = Inr (sub, [])"
      and ns: "ns = foldl (\<lambda>n (k, v). setattr n k v)
                  (setattr (init_namespace main_parser) ''command'' (PyStr cmd)) sub"
    by blast
  from parse_known_args_distinct [OF k subparser_facts(1) [OF p]]
  have dist: "distinct (map fst sub)" .
  have str: "\<exists>x. getattr ns a = Inr (PyStr x)"
    if "a \<in> set [''train_dir'', ''run_name'', ''data_dir'', ''log_dir'']" for a
  proof -
    from parse_known_args_strings [OF p k that] obtain x where "map_of sub a = Some (PyStr x)"
      by (auto simp: str_attr_def split: option.splits pyval.splits)
    from copied_attr [OF dist this] show ?thesis by (auto simp: ns getattr_def)
  qed
  have "\<exists>r. set_run_type ns = Inr (setattr ns ''run_type'' r)"
  proof (cases "cmd = ''evaluate''")
    case True
    with p k have "''dataset'' \<in> fst ` set sub" by (auto dest: parse_known_args_dataset)
    then obtain v where "map_of sub ''dataset'' = Some v"
      by (metis domD dom_map_of_conv_image_fst)
    from copied_attr [OF dist this] have "getattr ns ''dataset'' = Inr v"
      by (simp add: ns getattr_def)
    with gc show ?thesis by (auto simp: set_run_type_def)
  next
    case False
    with gc show ?thesis by (auto simp: set_run_type_def)
  qed
  then obtain r where r: "set_run_type ns = Inr (setattr ns ''run_type'' r)" by blast
  let ?n1 = "setattr ns ''run_type'' r"
  from str [of "''train_dir''"] str [of "''run_name''"] obtain t n
    where t: "getattr ns ''train_dir'' = Inr (PyStr t)" and n: "getattr ns ''run_name'' = Inr (PyStr n)"
    by auto
  then have d: "set_run_train_dir ?n1 = Inr (setattr ?n1 ''run_train_dir'' (PyStr (t @ ''/'' @ n)))"
    by (simp add: set_run_train_dir_def str_add_def getattr_setattr)
  let ?c = "\<lparr>oid = 0, attrs = setattr ?n1 ''run_train_dir'' (PyStr (t @ ''/'' @ n))\<rparr>"
  from assms r d have "\<exists>s'. parsed b (start (cmd # rest) f) = (Inr ?c, s')"
    by (simp add: parsed_def parsed_body_def start_def)
  moreover have "\<forall>k\<in>set directory_names. \<exists>d. getattr (attrs ?c) k = Inr (PyStr d)"
    using str [of "''train_dir''"] str [of "''data_dir''"] str [of "''log_dir''"]
    by (auto simp: directory_names_def getattr_setattr)
  ultimately show ?thesis by blast
qed

theorem parsed_returns_with_a_command_witness:
  "\<exists>ns c s'. parse_args sample_builtins [''search'', ''--log-dir'', ''-5''] = Inr ns \<and>
     parsed sample_builtins (start [''search'', ''--log-dir'', ''-5''] ([]::string list)) = (Inr c, s') \<and>
     getattr (attrs c) ''log_dir'' = Inr (PyStr ''-5'')"
proof -
  have "case parse_args sample_builtins [''search'', ''--log-dir'', ''-5''] of
          Inr ns \<Rightarrow> True | _ \<Rightarrow> False"
    by code_simp
  then obtain ns where p: "parse_args sample_builtins [''search'', ''--log-dir'', ''-5''] = Inr ns"
    by (auto split: sum.splits)
  from parsed_returns_with_a_command [OF p, of "[]::string list"] obtain c s'
    where q: "parsed sample_builtins (start [''search'', ''--log-dir'', ''-5''] ([]::string list)) = (Inr c, s')"
    by blast
  have "case parsed sample_builtins (start [''search'', ''--log-dir'', ''-5''] ([]::string list)) of
          (Inr c, s') \<Rightarrow> getattr (attrs c) ''log_dir'' = Inr (PyStr ''-5'') | _ \<Rightarrow> False"
    by code_simp
  with q have "getattr (attrs c) ''log_dir'' = Inr (PyStr ''-5'')" by simp
  with p q show ?thesis by blast
qed

end
